theory Spec2Isabelle
  imports Main "HOL-Library.Sublist"
begin

section \<open>Strings\<close>

text \<open>
  A JavaScript string is modelled as a \<^typ>\<open>string\<close>: a list of code units below 256
  (ASCII and Latin-1, which holds the Danish letters). Code units above 255 are outside
  the model. On that range \<open>toLowerCase\<close> maps \<open>A..Z\<close> and the Latin-1 capitals
  \<open>0xC0..0xDE\<close> (without the multiplication sign \<open>0xD7\<close>) to the letter 32 above, and
  the class \<open>\s\<close> of regular expressions, which is also what \<open>trim\<close> and \<open>parseInt\<close>
  strip, holds tab, line feed, vertical tab, form feed, carriage return, space and the
  no-break space.
\<close>

definition toLowerChar :: "char \<Rightarrow> char" where
  "toLowerChar c =
     (let n = (of_char c :: nat)
      in if (65 \<le> n \<and> n \<le> 90) \<or> (192 \<le> n \<and> n \<le> 222 \<and> n \<noteq> 215)
         then char_of (n + 32) else c)"

definition toLowerCase :: "string \<Rightarrow> string" where
  "toLowerCase s = map toLowerChar s"

definition isWhitespace :: "char \<Rightarrow> bool" where
  "isWhitespace c = ((of_char c :: nat) \<in> {9, 10, 11, 12, 13, 32, 160})"

definition isDigit :: "char \<Rightarrow> bool" where
  "isDigit c = (48 \<le> (of_char c :: nat) \<and> (of_char c :: nat) \<le> 57)"

text \<open>\<open>s.indexOf(needle)\<close>: the first position at which \<open>needle\<close> starts, \<open>None\<close> for -1.\<close>

fun indexOfFrom :: "nat \<Rightarrow> string \<Rightarrow> string \<Rightarrow> nat option" where
  "indexOfFrom i needle [] = (if needle = [] then Some i else None)"
| "indexOfFrom i needle (c # cs) =
     (if prefix needle (c # cs) then Some i else indexOfFrom (Suc i) needle cs)"

definition indexOf :: "string \<Rightarrow> string \<Rightarrow> nat option" where
  "indexOf s needle = indexOfFrom 0 needle s"

definition includesStr :: "string \<Rightarrow> string \<Rightarrow> bool" where
  "includesStr s needle = (indexOf s needle \<noteq> None)"

definition trim :: "string \<Rightarrow> string" where
  "trim s = rev (dropWhile isWhitespace (rev (dropWhile isWhitespace s)))"

text \<open>The decimal value of a string of digits, and \<open>parseInt(s, 10)\<close>: leading white
  space, an optional sign, then the longest run of digits; whatever follows is ignored,
  and \<open>None\<close> stands for \<open>NaN\<close>. This \<open>parseInt\<close> gives the mathematical integer: it
  reads the week override, which the script only compares with 1 and 53, and rounding to
  a number does not change the outcome of these comparisons.\<close>

definition digitValue :: "char \<Rightarrow> nat" where
  "digitValue c = of_char c - 48"

definition parseDigits :: "string \<Rightarrow> nat" where
  "parseDigits ds = foldl (\<lambda>acc c. 10 * acc + digitValue c) 0 ds"

definition parseInt :: "string \<Rightarrow> int option" where
  "parseInt s =
     (let t = dropWhile isWhitespace s;
          neg = (case t of [] \<Rightarrow> False | c # _ \<Rightarrow> c = CHR ''-'');
          r = (case t of [] \<Rightarrow> [] | c # cs \<Rightarrow> if c = CHR ''-'' \<or> c = CHR ''+'' then cs else t);
          ds = takeWhile isDigit r
      in if ds = [] then None
         else Some (if neg then - int (parseDigits ds) else int (parseDigits ds)))"

text \<open>Where the script keeps the result of \<open>parseInt\<close> (the week of a link), the value
  is a JavaScript number, a double: the integers below \<open>2^53\<close> are exact, a larger one is
  rounded to the nearest number with 53 binary digits (a tie goes to the even one), and
  the result is \<open>Infinity\<close> when that has more than 1024 binary digits, which is from
  \<open>2^1024\<close> on. \<open>bitLen n\<close> is the number of binary digits of \<open>n\<close>;
  \<open>parseIntDigits\<close> is \<open>parseInt(ds, 10)\<close> on a non-empty run of digits.\<close>

datatype number = Num int | Infinity

function bitLen :: "int \<Rightarrow> nat" where
  "bitLen n = (if n \<le> 0 then 0 else Suc (bitLen (n div 2)))"
  by pat_completeness auto
termination
  by (relation "measure nat") auto

definition roundToDouble :: "int \<Rightarrow> number" where
  "roundToDouble n =
     (if n < 2 ^ 53 then Num n
      else
        (let e = bitLen n - 53;
             q = n div 2 ^ e;
             r = n mod 2 ^ e;
             half = 2 ^ (e - 1);
             q' = (if half < r \<or> (r = half \<and> odd q) then q + 1 else q)
         in if 1024 < bitLen q' + e then Infinity else Num (q' * 2 ^ e)))"

definition parseIntDigits :: "string \<Rightarrow> number" where
  "parseIntDigits ds = roundToDouble (int (parseDigits ds))"

text \<open>A global \<open>replace(re, '')\<close>: the matcher \<open>m\<close> gives the length of the match of
  \<open>re\<close> that starts at the head of its argument. The scan goes left to right, drops a
  match and goes on behind it, and copies the character where nothing matches.\<close>

fun replaceAllEmpty :: "(string \<Rightarrow> nat option) \<Rightarrow> string \<Rightarrow> string" where
  "replaceAllEmpty m [] = []"
| "replaceAllEmpty m (c # cs) =
     (case m (c # cs) of
        Some (Suc n) \<Rightarrow> replaceAllEmpty m (drop n cs)
      | _ \<Rightarrow> c # replaceAllEmpty m cs)"

text \<open>A literal of lower-case ASCII letters matched under the flag \<open>i\<close>; the rest of
  the string behind it.\<close>

definition stripPrefixCI :: "string \<Rightarrow> string \<Rightarrow> string option" where
  "stripPrefixCI lit s =
     (if length lit \<le> length s \<and> toLowerCase (take (length lit) s) = lit
      then Some (drop (length lit) s) else None)"

definition stripPrefix :: "string \<Rightarrow> string \<Rightarrow> string option" where
  "stripPrefix lit s = (if prefix lit s then Some (drop (length lit) s) else None)"

section \<open>Dates\<close>

text \<open>
  A \<open>Date\<close> is its time value: milliseconds since 1970-01-01T00:00Z, an \<^typ>\<open>int\<close>.
  The calendar functions are the ones the language standard defines on time values. The
  methods the script calls (\<open>getDay\<close>, \<open>getDate\<close>, \<open>setDate\<close>, \<open>setMonth\<close>) work in
  local time, so they take the time zone of the machine: \<open>localTime\<close> turns a time value
  into local time and \<open>utcTime\<close> turns a local time back.

  A \<open>Date\<close> of the language holds a time value of at most \<open>8.64e15\<close> in absolute
  value, and \<open>TimeClip\<close> turns a time value beyond that into \<open>NaN\<close>. The script only
  makes dates with \<open>new Date()\<close>, the current time. The functions below compute with
  time values inside this range, which \<open>timeInRange\<close> states; what they give outside of
  it says nothing about the code.
\<close>

definition msPerDay :: int where
  "msPerDay = 86400000"

definition timeInRange :: "int \<Rightarrow> bool" where
  "timeInRange t = (- 8640000000000000 \<le> t \<and> t \<le> 8640000000000000)"

definition Day :: "int \<Rightarrow> int" where
  "Day t = t div msPerDay"

definition TimeWithinDay :: "int \<Rightarrow> int" where
  "TimeWithinDay t = t mod msPerDay"

definition DayFromYear :: "int \<Rightarrow> int" where
  "DayFromYear y =
     365 * (y - 1970) + (y - 1969) div 4 - (y - 1901) div 100 + (y - 1601) div 400"

text \<open>\<open>YearFromTime\<close> is the largest year that starts at or before the day: a search
  down from an estimate to a year that starts early enough, then up to the last such
  year.\<close>

function yearDown :: "int \<Rightarrow> int \<Rightarrow> int" where
  "yearDown y d = (if d < DayFromYear y then yearDown (y - 1) d else y)"
  by pat_completeness auto
termination
proof (relation "measure (\<lambda>(y, d). nat (DayFromYear y - d))")
  show "wf (measure (\<lambda>(y, d). nat (DayFromYear y - d)))"
    by simp
next
  fix y d :: int
  assume less: "d < DayFromYear y"
  have "(y - 1 - 1969) div 4 \<le> (y - 1969) div 4"
    and "(y - 1901) div 100 \<le> (y - 1 - 1901) div 100 + 1"
    and "(y - 1 - 1601) div 400 \<le> (y - 1601) div 400"
    by linarith+
  then have "DayFromYear (y - 1) < DayFromYear y"
    unfolding DayFromYear_def by (simp add: algebra_simps)
  with less show "((y - 1, d), (y, d)) \<in> measure (\<lambda>(y, d). nat (DayFromYear y - d))"
    by simp
qed

function yearUp :: "int \<Rightarrow> int \<Rightarrow> int" where
  "yearUp y d = (if DayFromYear (y + 1) \<le> d then yearUp (y + 1) d else y)"
  by pat_completeness auto
termination
proof (relation "measure (\<lambda>(y, d). nat (d + 1 - DayFromYear (y + 1)))")
  show "wf (measure (\<lambda>(y, d). nat (d + 1 - DayFromYear (y + 1))))"
    by simp
next
  fix y d :: int
  assume le: "DayFromYear (y + 1) \<le> d"
  have "(y + 1 - 1969) div 4 \<le> (y + 1 + 1 - 1969) div 4"
    and "(y + 1 + 1 - 1901) div 100 \<le> (y + 1 - 1901) div 100 + 1"
    and "(y + 1 - 1601) div 400 \<le> (y + 1 + 1 - 1601) div 400"
    by linarith+
  then have "DayFromYear (y + 1) < DayFromYear (y + 1 + 1)"
    unfolding DayFromYear_def by (simp add: algebra_simps)
  with le show "((y + 1, d), (y, d)) \<in> measure (\<lambda>(y, d). nat (d + 1 - DayFromYear (y + 1)))"
    by simp
qed

definition YearFromDay :: "int \<Rightarrow> int" where
  "YearFromDay d = yearUp (yearDown (1970 + d div 365) d) d"

definition YearFromTime :: "int \<Rightarrow> int" where
  "YearFromTime t = YearFromDay (Day t)"

definition InLeapYear :: "int \<Rightarrow> bool" where
  "InLeapYear t = (DayFromYear (YearFromTime t + 1) - DayFromYear (YearFromTime t) = 366)"

definition DayWithinYear :: "int \<Rightarrow> int" where
  "DayWithinYear t = Day t - DayFromYear (YearFromTime t)"

text \<open>The day within the year on which month \<open>m\<close> (0 to 11) starts.\<close>

definition monthStart :: "bool \<Rightarrow> int \<Rightarrow> int" where
  "monthStart leap m =
     (let l = (if leap then 1 else 0)
      in if m = 0 then 0 else if m = 1 then 31 else if m = 2 then 59 + l
         else if m = 3 then 90 + l else if m = 4 then 120 + l else if m = 5 then 151 + l
         else if m = 6 then 181 + l else if m = 7 then 212 + l else if m = 8 then 243 + l
         else if m = 9 then 273 + l else if m = 10 then 304 + l else 334 + l)"

definition MonthFromTime :: "int \<Rightarrow> int" where
  "MonthFromTime t =
     (let d = DayWithinYear t; leap = InLeapYear t
      in if d < monthStart leap 1 then 0 else if d < monthStart leap 2 then 1
         else if d < monthStart leap 3 then 2 else if d < monthStart leap 4 then 3
         else if d < monthStart leap 5 then 4 else if d < monthStart leap 6 then 5
         else if d < monthStart leap 7 then 6 else if d < monthStart leap 8 then 7
         else if d < monthStart leap 9 then 8 else if d < monthStart leap 10 then 9
         else if d < monthStart leap 11 then 10 else 11)"

definition DateFromTime :: "int \<Rightarrow> int" where
  "DateFromTime t = DayWithinYear t - monthStart (InLeapYear t) (MonthFromTime t) + 1"

definition WeekDay :: "int \<Rightarrow> int" where
  "WeekDay t = (Day t + 4) mod 7"

text \<open>\<open>MakeDay\<close> for a month from 0 to 11; the day of the month may be any integer.\<close>

definition MakeDay :: "int \<Rightarrow> int \<Rightarrow> int \<Rightarrow> int" where
  "MakeDay y m dt =
     DayFromYear y + monthStart (DayFromYear (y + 1) - DayFromYear y = 366) m + dt - 1"

definition MakeDate :: "int \<Rightarrow> int \<Rightarrow> int" where
  "MakeDate day time = day * msPerDay + time"

record zone =
  localTime :: "int \<Rightarrow> int"
  utcTime :: "int \<Rightarrow> int"

definition getDay :: "zone \<Rightarrow> int \<Rightarrow> int" where
  "getDay z t = WeekDay (localTime z t)"

definition getDate :: "zone \<Rightarrow> int \<Rightarrow> int" where
  "getDate z t = DateFromTime (localTime z t)"

definition setDate :: "zone \<Rightarrow> int \<Rightarrow> int \<Rightarrow> int" where
  "setDate z t dt =
     (let lt = localTime z t
      in utcTime z (MakeDate (MakeDay (YearFromTime lt) (MonthFromTime lt) dt) (TimeWithinDay lt)))"

definition setMonth :: "zone \<Rightarrow> int \<Rightarrow> int \<Rightarrow> int \<Rightarrow> int" where
  "setMonth z t m dt =
     (let lt = localTime z t
      in utcTime z (MakeDate (MakeDay (YearFromTime lt) m dt) (TimeWithinDay lt)))"

text \<open>A zone with one offset all year (UTC is \<open>fixedZone 0\<close>), and the rules of
  Europe/Copenhagen for 2024: one hour ahead of UTC, two hours from 2024-03-31T01:00Z
  to 2024-10-27T01:00Z. A local time that the change skips or repeats is read with the
  offset in force before the change.\<close>

definition fixedZone :: "int \<Rightarrow> zone" where
  "fixedZone c = \<lparr>localTime = (\<lambda>t. t + c), utcTime = (\<lambda>t. t - c)\<rparr>"

definition copenhagen2024 :: zone where
  "copenhagen2024 =
     \<lparr>localTime = (\<lambda>t. if 1711846800000 \<le> t \<and> t < 1729990800000
                        then t + 7200000 else t + 3600000),
      utcTime = (\<lambda>t. if 1711854000000 \<le> t \<and> t < 1729998000000
                      then t - 7200000 else t - 3600000)\<rparr>"

text \<open>The rules of Australia/Sydney for 2024: eleven hours ahead of UTC, ten hours from
  2024-04-06T16:00Z to 2024-10-05T16:00Z.\<close>

definition sydney2024 :: zone where
  "sydney2024 =
     \<lparr>localTime = (\<lambda>t. if 1712419200000 \<le> t \<and> t < 1728144000000
                        then t + 36000000 else t + 39600000),
      utcTime = (\<lambda>t. if 1712458800000 \<le> t \<and> t < 1728183600000
                      then t - 36000000 else t - 39600000)\<rparr>"

text \<open>\<open>Math.ceil(a / b)\<close> for integers \<open>a\<close> and positive \<open>b\<close>.\<close>

definition ceilDiv :: "int \<Rightarrow> int \<Rightarrow> int" where
  "ceilDiv a b = - ((- a) div b)"

text \<open>\<open>getWeekNumber\<close>, statement by statement; \<open>target\<close> is reassigned as the
  code mutates it. The remainders \<open>%\<close> have operands that are never negative, so they
  are \<open>mod\<close>.\<close>

definition getWeekNumber :: "zone \<Rightarrow> int \<Rightarrow> int" where
  "getWeekNumber z date =
     (let target = date;
          dayNumber = (getDay z date + 6) mod 7;
          target = setDate z target (getDate z target - dayNumber + 3);
          firstThursday = target;
          target = setMonth z target 0 1;
          target = (if getDay z target \<noteq> 4
                    then setMonth z target 0 (1 + ((4 - getDay z target + 7) mod 7))
                    else target)
      in 1 + ceilDiv (firstThursday - target) 604800000)"

text \<open>The two dates of the specification's formula: the Thursday of the date's week
  (\<open>target\<close> after \<open>setDate\<close>) and the first Thursday of that Thursday's year
  (\<open>target\<close> after the \<open>setMonth\<close> calls).\<close>

definition targetThursday :: "zone \<Rightarrow> int \<Rightarrow> int" where
  "targetThursday z date =
     (let dayNumber = (getDay z date + 6) mod 7
      in setDate z date (getDate z date - dayNumber + 3))"

definition yearFirstThursday :: "zone \<Rightarrow> int \<Rightarrow> int" where
  "yearFirstThursday z date =
     (let target = setMonth z (targetThursday z date) 0 1
      in if getDay z target \<noteq> 4
         then setMonth z target 0 (1 + ((4 - getDay z target + 7) mod 7))
         else target)"

text \<open>The dates the code computes on the way, which have to stay in the range of a
  \<open>Date\<close>: the date itself, its Thursday, the first of January and the first
  Thursday.\<close>

definition datesInRange :: "zone \<Rightarrow> int \<Rightarrow> bool" where
  "datesInRange z date =
     (timeInRange date \<and> timeInRange (targetThursday z date)
      \<and> timeInRange (setMonth z (targetThursday z date) 0 1)
      \<and> timeInRange (yearFirstThursday z date))"

text \<open>The ISO-8601 week of a day (a day number, day 0 being Thursday 1970-01-01): weeks
  run from Monday to Sunday, a week belongs to the year its Thursday lies in, and week 1
  of a year is the week that holds the year's first Thursday.\<close>

definition mondayOf :: "int \<Rightarrow> int" where
  "mondayOf d = d - (d + 3) mod 7"

definition thursdayOf :: "int \<Rightarrow> int" where
  "thursdayOf d = mondayOf d + 3"

definition isoYear :: "int \<Rightarrow> int" where
  "isoYear d = YearFromDay (thursdayOf d)"

definition firstThursdayOfYear :: "int \<Rightarrow> int" where
  "firstThursdayOfYear y = DayFromYear y + (- DayFromYear y) mod 7"

definition isoWeek :: "int \<Rightarrow> int" where
  "isoWeek d = (thursdayOf d - firstThursdayOfYear (isoYear d)) div 7 + 1"

section \<open>Weekdays and arguments\<close>

record weekdayEntry =
  danish :: string
  english :: string

definition WEEKDAYS :: "weekdayEntry list" where
  "WEEKDAYS =
     [\<lparr>danish = ''mandag'', english = ''monday''\<rparr>,
      \<lparr>danish = ''tirsdag'', english = ''tuesday''\<rparr>,
      \<lparr>danish = ''onsdag'', english = ''wednesday''\<rparr>,
      \<lparr>danish = ''torsdag'', english = ''thursday''\<rparr>,
      \<lparr>danish = ''fredag'', english = ''friday''\<rparr>]"

datatype error =
    NoMenuOnWeekends
  | InvalidWeek string
  | InvalidDay string
  | CouldNotFindPdf weekdayEntry int

text \<open>\<open>getCurrentDay\<close> reads the clock itself; \<open>now\<close> is the time value it reads.\<close>

definition getCurrentDay :: "zone \<Rightarrow> int \<Rightarrow> error + weekdayEntry" where
  "getCurrentDay z now =
     (let dayIndex = getDay z now
      in if dayIndex = 0 \<or> dayIndex = 6 then Inl NoMenuOnWeekends
         else Inr (WEEKDAYS ! nat (dayIndex - 1)))"

definition getDayByName :: "string \<Rightarrow> weekdayEntry option" where
  "getDayByName name =
     (let lowerName = toLowerCase name
      in find (\<lambda>day. danish day = lowerName \<or> english day = lowerName) WEEKDAYS)"

text \<open>\<open>args.indexOf(flag)\<close>: the first index that holds the flag.\<close>

fun indexOfArg :: "string list \<Rightarrow> string \<Rightarrow> nat option" where
  "indexOfArg [] flag = None"
| "indexOfArg (a # as) flag =
     (if a = flag then Some 0 else map_option Suc (indexOfArg as flag))"

fun getArgValue :: "string list \<Rightarrow> string list \<Rightarrow> string option" where
  "getArgValue args [] = None"
| "getArgValue args (flag # flags) =
     (case indexOfArg args flag of
        Some index \<Rightarrow>
          if index + 1 < length args then Some (args ! (index + 1))
          else getArgValue args flags
      | None \<Rightarrow> getArgValue args flags)"

section \<open>The cleanup of the menu text\<close>

text \<open>The match of \<open>--\s*\d+\s+of\s+\d+\s*--\<close> at the head of a string: its length.
  White space and digits are disjoint classes and none holds \<open>o\<close> or \<open>-\<close>, so each
  greedy run is the only way to match.\<close>

definition pageNumberAt :: "string \<Rightarrow> nat option" where
  "pageNumberAt s =
     (case stripPrefix ''--'' s of
        None \<Rightarrow> None
      | Some r1 \<Rightarrow>
          let r2 = dropWhile isWhitespace r1;
              d1 = takeWhile isDigit r2;
              r3 = dropWhile isDigit r2;
              w2 = takeWhile isWhitespace r3;
              r4 = dropWhile isWhitespace r3
          in if d1 = [] \<or> w2 = [] then None
             else (case stripPrefix ''of'' r4 of
                     None \<Rightarrow> None
                   | Some r5 \<Rightarrow>
                       let w3 = takeWhile isWhitespace r5;
                           r6 = dropWhile isWhitespace r5;
                           d2 = takeWhile isDigit r6;
                           r7 = dropWhile isDigit r6;
                           r8 = dropWhile isWhitespace r7
                       in if w3 = [] \<or> d2 = [] then None
                          else (case stripPrefix ''--'' r8 of
                                  None \<Rightarrow> None
                                | Some r9 \<Rightarrow> Some (length s - length r9))))"

definition removePageNumbers :: "string \<Rightarrow> string" where
  "removePageNumbers text = trim (replaceAllEmpty pageNumberAt text)"

text \<open>The match of \<open>\s*\([0-9,TKMN\s]+\)\<close> at the head of a string: its length.\<close>

definition isAllergyChar :: "char \<Rightarrow> bool" where
  "isAllergyChar c =
     (isDigit c \<or> c = CHR '','' \<or> c = CHR ''T'' \<or> c = CHR ''K'' \<or> c = CHR ''M''
      \<or> c = CHR ''N'' \<or> isWhitespace c)"

definition allergyInfoAt :: "string \<Rightarrow> nat option" where
  "allergyInfoAt s =
     (let ws = takeWhile isWhitespace s
      in case dropWhile isWhitespace s of
           [] \<Rightarrow> None
         | c # r1 \<Rightarrow>
             if c \<noteq> CHR ''('' then None
             else let codes = takeWhile isAllergyChar r1
                  in if codes = [] then None
                     else (case dropWhile isAllergyChar r1 of
                             [] \<Rightarrow> None
                           | e # _ \<Rightarrow>
                               if e = CHR '')'' then Some (length ws + 1 + length codes + 1)
                               else None))"

definition removeAllergyInfo :: "string \<Rightarrow> string" where
  "removeAllergyInfo text = replaceAllEmpty allergyInfoAt text"

section \<open>The link resolver\<close>

text \<open>
  The HTML parser is a library. What \<open>findMenuPdfUrl\<close> asks of the parsed document is
  taken as given: the inner markup of the body as the library serializes it (\<open>None\<close>
  when there is no body), and the anchor elements in document order, each with its
  \<open>href\<close> attribute (\<open>None\<close> when absent), its text content and its serialized markup.
\<close>

record anchor =
  href :: "string option"
  linkText :: string
  outerHtml :: string

record document =
  bodyInner :: "string option"
  anchors :: "anchor list"

record candidate =
  candHref :: string
  weekNum :: "number option"

text \<open>The selector \<open>a[href$=".pdf"]\<close>.\<close>

definition pdfAnchors :: "document \<Rightarrow> anchor list" where
  "pdfAnchors doc =
     filter (\<lambda>el. case href el of None \<Rightarrow> False | Some h \<Rightarrow> suffix ''.pdf'' h) (anchors doc)"

text \<open>\<open>[_\-\s]?(\d+)\<close> at the head of a string: the digits it captures. If the
  separator is taken and no digit follows, giving the separator back does not help, since
  a separator is not a digit.\<close>

definition isUrlSeparator :: "char \<Rightarrow> bool" where
  "isUrlSeparator c = (c = CHR ''_'' \<or> c = CHR ''-'' \<or> isWhitespace c)"

definition separatorDigits :: "string \<Rightarrow> string option" where
  "separatorDigits s =
     (let r = (case s of [] \<Rightarrow> [] | c # cs \<Rightarrow> if isUrlSeparator c then cs else s);
          ds = takeWhile isDigit r
      in if ds = [] then None else Some ds)"

definition tokenDigits :: "string \<Rightarrow> string \<Rightarrow> string option" where
  "tokenDigits token s =
     (case stripPrefixCI token s of None \<Rightarrow> None | Some r \<Rightarrow> separatorDigits r)"

text \<open>\<open>(uge|week|w)[_\-\s]?(\d+)\<close> with flag \<open>i\<close> at the head of a string, the
  alternatives in their order, and \<open>href.match\<close>: the leftmost position that matches.
  The result is the second group.\<close>

definition urlWeekAt :: "string \<Rightarrow> string option" where
  "urlWeekAt s =
     (case tokenDigits ''uge'' s of
        Some ds \<Rightarrow> Some ds
      | None \<Rightarrow>
          (case tokenDigits ''week'' s of
             Some ds \<Rightarrow> Some ds
           | None \<Rightarrow> tokenDigits ''w'' s))"

fun urlWeekMatch :: "string \<Rightarrow> string option" where
  "urlWeekMatch [] = None"
| "urlWeekMatch (c # cs) =
     (case urlWeekAt (c # cs) of Some ds \<Rightarrow> Some ds | None \<Rightarrow> urlWeekMatch cs)"

text \<open>\<open>\s+(\d+)\<close> at the head of a string: the digits and the length of the match;
  then \<open>uge\s+(\d+)|week\s+(\d+)\<close> with flag \<open>i\<close>, and \<open>matchAll\<close>: the digits of
  every match, found from left to right, each search starting behind the match before.\<close>

definition spaceDigits :: "string \<Rightarrow> (string \<times> nat) option" where
  "spaceDigits s =
     (let ws = takeWhile isWhitespace s;
          ds = takeWhile isDigit (dropWhile isWhitespace s)
      in if ws = [] \<or> ds = [] then None else Some (ds, length ws + length ds))"

definition weekHeadingAt :: "string \<Rightarrow> (string \<times> nat) option" where
  "weekHeadingAt s =
     (case (case stripPrefixCI ''uge'' s of None \<Rightarrow> None | Some r \<Rightarrow> spaceDigits r) of
        Some (ds, n) \<Rightarrow> Some (ds, 3 + n)
      | None \<Rightarrow>
          (case (case stripPrefixCI ''week'' s of None \<Rightarrow> None | Some r \<Rightarrow> spaceDigits r) of
             Some (ds, n) \<Rightarrow> Some (ds, 4 + n)
           | None \<Rightarrow> None))"

fun weekMatches :: "string \<Rightarrow> string list" where
  "weekMatches [] = []"
| "weekMatches (c # cs) =
     (case weekHeadingAt (c # cs) of
        Some (ds, Suc n) \<Rightarrow> ds # weekMatches (drop n cs)
      | _ \<Rightarrow> weekMatches cs)"

text \<open>The week number in force at the end of a piece of markup: \<open>parseInt\<close> of the
  digits of the last match, \<open>None\<close> (\<open>null\<close>) without a match. The digits are a
  non-empty run of digits, on which \<open>parseInt\<close> is the decimal value as a number.\<close>

definition lastWeekNum :: "string \<Rightarrow> number option" where
  "lastWeekNum htmlBeforeElement =
     (let ms = weekMatches htmlBeforeElement
      in if ms = [] then None else Some (parseIntDigits (last ms)))"

text \<open>The body of the loop over the anchors: the candidate an anchor adds, if any.\<close>

definition candidateOf :: "string \<Rightarrow> string \<Rightarrow> anchor \<Rightarrow> candidate option" where
  "candidateOf bodyHtml dayName el =
     (case href el of
        None \<Rightarrow> None
      | Some h \<Rightarrow>
          if h = [] then None
          else if \<not> includesStr (toLowerCase (linkText el)) (toLowerCase dayName)
                  \<and> \<not> includesStr (toLowerCase h) (toLowerCase dayName) then None
          else (case urlWeekMatch h of
                  Some ds \<Rightarrow> Some \<lparr>candHref = h, weekNum = Some (parseIntDigits ds)\<rparr>
                | None \<Rightarrow>
                    (case indexOf bodyHtml (outerHtml el) of
                       None \<Rightarrow> Some \<lparr>candHref = h, weekNum = None\<rparr>
                     | Some elementPos \<Rightarrow>
                         Some \<lparr>candHref = h,
                               weekNum = lastWeekNum (take elementPos bodyHtml)\<rparr>)))"

definition bodyHtmlOf :: "document \<Rightarrow> string \<Rightarrow> string" where
  "bodyHtmlOf doc html =
     (case bodyInner doc of None \<Rightarrow> html | Some b \<Rightarrow> if b = [] then html else b)"

definition candidatesOf :: "document \<Rightarrow> string \<Rightarrow> string \<Rightarrow> candidate list" where
  "candidatesOf doc html dayName =
     List.map_filter (candidateOf (bodyHtmlOf doc html) dayName) (pdfAnchors doc)"

text \<open>\<open>findMenuPdfUrl\<close>; \<open>doc\<close> is what \<open>cheerio.load(html)\<close> gives. The week
  number asked for is the integer that \<open>getWeekNumber\<close> or the week override gives.\<close>

definition findMenuPdfUrl :: "document \<Rightarrow> string \<Rightarrow> int \<Rightarrow> string \<Rightarrow> string option" where
  "findMenuPdfUrl doc html weekNumber dayName =
     (let candidates = candidatesOf doc html dayName
      in case find (\<lambda>c. weekNum c = Some (Num weekNumber)) candidates of
           Some match \<Rightarrow> Some (candHref match)
         | None \<Rightarrow>
             (case candidates of
                [c] \<Rightarrow> if weekNum c = None then Some (candHref c) else None
              | _ \<Rightarrow> None))"

section \<open>The run\<close>

text \<open>
  \<open>main\<close> up to its output. What the run reads from outside is the environment: the
  time zone, the clock as \<open>main\<close> reads it and as \<open>getCurrentDay\<close> reads it, the
  listing page and its parsed form, and the text of page 2 of the PDF behind a URL.
  Failures of the network, of the file system and of the PDF parser are not modelled.
  An error that \<open>main\<close> throws ends the run with the message on the error stream and
  exit status 1.
\<close>

record env =
  zoneOf :: zone
  clockMain :: int
  clockDay :: int
  pageHtml :: string
  pageDoc :: document
  pdfPageText :: "string \<Rightarrow> string"

datatype outcome =
    HelpShown
  | Failed error
  | Menu weekdayEntry int string string

fun showNat :: "nat \<Rightarrow> string" where
  "showNat n =
     (if n < 10 then [char_of (48 + n)] else showNat (n div 10) @ [char_of (48 + n mod 10)])"

definition showInt :: "int \<Rightarrow> string" where
  "showInt i = (if i < 0 then CHR ''-'' # showNat (nat (- i)) else showNat (nat i))"

fun joinWith :: "string \<Rightarrow> string list \<Rightarrow> string" where
  "joinWith sep [] = []"
| "joinWith sep [x] = x"
| "joinWith sep (x # y # ys) = x @ sep @ joinWith sep (y # ys)"

definition validDays :: string where
  "validDays = joinWith '', '' (map (\<lambda>d. danish d @ ''/'' @ english d) WEEKDAYS)"

fun errorMessage :: "error \<Rightarrow> string" where
  "errorMessage NoMenuOnWeekends = ''No menu available on weekends''"
| "errorMessage (InvalidWeek weekArg) =
     ''Invalid week number: '' @ weekArg @ ''. Must be between 1 and 53.''"
| "errorMessage (InvalidDay dayArg) =
     ''Invalid day: '' @ dayArg @ ''. Valid days: '' @ validDays"
| "errorMessage (CouldNotFindPdf day weekNumber) =
     ''Could not find PDF for '' @ danish day @ '' in week '' @ showInt weekNumber"

text \<open>The two argument sections of \<open>main\<close>. \<open>if (weekArg)\<close> holds for a string that
  is present and not empty.\<close>

definition selectWeek :: "zone \<Rightarrow> int \<Rightarrow> string list \<Rightarrow> error + int" where
  "selectWeek z today args =
     (case getArgValue args [''--week'', ''-w''] of
        None \<Rightarrow> Inr (getWeekNumber z today)
      | Some weekArg \<Rightarrow>
          if weekArg = [] then Inr (getWeekNumber z today)
          else (case parseInt weekArg of
                  None \<Rightarrow> Inl (InvalidWeek weekArg)
                | Some parsedWeek \<Rightarrow>
                    if parsedWeek < 1 \<or> parsedWeek > 53 then Inl (InvalidWeek weekArg)
                    else Inr parsedWeek))"

definition selectDay :: "zone \<Rightarrow> int \<Rightarrow> string list \<Rightarrow> error + weekdayEntry" where
  "selectDay z now args =
     (case getArgValue args [''--day'', ''-d''] of
        None \<Rightarrow> getCurrentDay z now
      | Some dayArg \<Rightarrow>
          if dayArg = [] then getCurrentDay z now
          else (case getDayByName dayArg of
                  None \<Rightarrow> Inl (InvalidDay dayArg)
                | Some day \<Rightarrow> Inr day))"

definition cleanMenuText :: "bool \<Rightarrow> string \<Rightarrow> string" where
  "cleanMenuText noAllergies text =
     (let menuText = removePageNumbers text
      in if noAllergies then removeAllergyInfo menuText else menuText)"

definition main :: "env \<Rightarrow> string list \<Rightarrow> outcome" where
  "main e args =
     (let noAllergies = (''--no-allergies'' \<in> set args \<or> ''-na'' \<in> set args)
      in if ''--help'' \<in> set args \<or> ''-h'' \<in> set args then HelpShown
         else (case selectWeek (zoneOf e) (clockMain e) args of
                 Inl err \<Rightarrow> Failed err
               | Inr weekNumber \<Rightarrow>
                   (case selectDay (zoneOf e) (clockDay e) args of
                      Inl err \<Rightarrow> Failed err
                    | Inr selectedDay \<Rightarrow>
                        (case findMenuPdfUrl (pageDoc e) (pageHtml e) weekNumber
                                (danish selectedDay) of
                           None \<Rightarrow> Failed (CouldNotFindPdf selectedDay weekNumber)
                         | Some pdfUrl \<Rightarrow>
                             if pdfUrl = [] then Failed (CouldNotFindPdf selectedDay weekNumber)
                             else let absolutePdfUrl =
                                        (if prefix ''http'' pdfUrl then pdfUrl
                                         else ''https://www.nooncph.dk'' @ pdfUrl)
                                  in Menu selectedDay weekNumber absolutePdfUrl
                                       (cleanMenuText noAllergies
                                          (pdfPageText e absolutePdfUrl))))))"

section \<open>The patterns in the words of the specification\<close>

text \<open>The week marker of a link as the specification words it: one of the tokens
  \<open>uge\<close>, \<open>week\<close>, \<open>w\<close> in any case, then a digit, with at most one separator
  (underscore, hyphen or white space) in between.\<close>

definition tokenThenDigit :: "string \<Rightarrow> string \<Rightarrow> bool" where
  "tokenThenDigit token s =
     (case stripPrefixCI token s of
        None \<Rightarrow> False
      | Some r \<Rightarrow>
          (case r of
             [] \<Rightarrow> False
           | c # cs \<Rightarrow>
               isDigit c \<or> (isUrlSeparator c \<and> (case cs of [] \<Rightarrow> False | e # _ \<Rightarrow> isDigit e))))"

definition weekMarkerAt :: "string \<Rightarrow> bool" where
  "weekMarkerAt s = (tokenThenDigit ''uge'' s \<or> tokenThenDigit ''week'' s \<or> tokenThenDigit ''w'' s)"

definition hasWeekMarker :: "string \<Rightarrow> bool" where
  "hasWeekMarker h = list_ex (\<lambda>i. weekMarkerAt (drop i h)) [0..<length h]"

text \<open>The week heading of the markup that starts last: at each position the heading
  that starts there counts only if none starts further right.\<close>

fun lastOccurrence :: "string \<Rightarrow> string option" where
  "lastOccurrence [] = None"
| "lastOccurrence (c # cs) =
     (case lastOccurrence cs of
        Some ds \<Rightarrow> Some ds
      | None \<Rightarrow> map_option fst (weekHeadingAt (c # cs)))"

text \<open>A week heading starts with \<open>u\<close> or \<open>w\<close>, in either case.\<close>

definition startsHeading :: "char \<Rightarrow> bool" where
  "startsHeading c = (toLowerChar c = CHR ''u'' \<or> toLowerChar c = CHR ''w'')"

text \<open>The listing of the specification's example of positional inference, and the
  link of its example of a week in the file name; \<open>markup\<close> is whatever the parser
  gives as the serialized link.\<close>

definition twoWeeksHtml :: string where
  "twoWeeksHtml =
     ''<h2>Uge 2</h2><a href=\"mon.pdf\">Mandag</a><h2>Uge 3</h2><a href=\"mon2.pdf\">Mandag</a>''"

definition twoWeeksDoc :: document where
  "twoWeeksDoc =
     \<lparr>bodyInner = Some twoWeeksHtml,
      anchors = [\<lparr>href = Some ''mon.pdf'', linkText = ''Mandag'',
                  outerHtml = ''<a href=\"mon.pdf\">Mandag</a>''\<rparr>,
                 \<lparr>href = Some ''mon2.pdf'', linkText = ''Mandag'',
                  outerHtml = ''<a href=\"mon2.pdf\">Mandag</a>''\<rparr>]\<rparr>"

definition weekInNameLink :: "string \<Rightarrow> anchor" where
  "weekInNameLink markup =
     \<lparr>href = Some ''menu-uge3-mandag.pdf'', linkText = ''Mandag'', outerHtml = markup\<rparr>"

section \<open>Example pages\<close>

text \<open>A listing with one link and no week anywhere, and what the parser gives for it.\<close>

definition singleLinkHtml :: string where
  "singleLinkHtml = ''<p>Menu</p><a href=\"menu.pdf\">Mandag</a>''"

definition singleLinkDoc :: document where
  "singleLinkDoc =
     \<lparr>bodyInner = Some singleLinkHtml,
      anchors = [\<lparr>href = Some ''menu.pdf'', linkText = ''Mandag'',
                  outerHtml = ''<a href=\"menu.pdf\">Mandag</a>''\<rparr>]\<rparr>"

text \<open>A page with a week in its title and none in its body: the body markup that the
  parser gives is the link alone, while the page as fetched holds the title too.\<close>

definition titledPageHtml :: string where
  "titledPageHtml =
     ''<html><head><title>Uge 5</title></head><body><a href=\"mon.pdf\">Mandag</a></body></html>''"

definition titledPageDoc :: document where
  "titledPageDoc =
     \<lparr>bodyInner = Some ''<a href=\"mon.pdf\">Mandag</a>'',
      anchors = [\<lparr>href = Some ''mon.pdf'', linkText = ''Mandag'',
                  outerHtml = ''<a href=\"mon.pdf\">Mandag</a>''\<rparr>]\<rparr>"

text \<open>A listing in which a link under the heading of week 3 comes before the link with
  the week in its name.\<close>

definition earlierLinkHtml :: string where
  "earlierLinkHtml =
     ''<h2>Uge 3</h2><a href=\"mon.pdf\">Mandag</a><a href=\"menu-uge3-mandag.pdf\">Mandag</a>''"

definition earlierLinkDoc :: document where
  "earlierLinkDoc =
     \<lparr>bodyInner = Some earlierLinkHtml,
      anchors = [\<lparr>href = Some ''mon.pdf'', linkText = ''Mandag'',
                  outerHtml = ''<a href=\"mon.pdf\">Mandag</a>''\<rparr>,
                 weekInNameLink ''<a href=\"menu-uge3-mandag.pdf\">Mandag</a>'']\<rparr>"

text \<open>A run in UTC on Saturday 2024-01-06 at midnight, on an empty listing.\<close>

definition saturdayEnv :: env where
  "saturdayEnv =
     \<lparr>zoneOf = fixedZone 0, clockMain = 1704499200000, clockDay = 1704499200000,
      pageHtml = [], pageDoc = \<lparr>bodyInner = None, anchors = []\<rparr>,
      pdfPageText = (\<lambda>url. [])\<rparr>"

section \<open>The number that parseInt gives\<close>

declare bitLen.simps [simp del]

lemma bitLen_nonpos: "n \<le> 0 \<Longrightarrow> bitLen n = 0"
  by (subst bitLen.simps) simp

lemma bitLen_pos: "0 < n \<Longrightarrow> bitLen n = Suc (bitLen (n div 2))"
  by (subst bitLen.simps) simp

lemma bitLen_bounds: "0 < n \<Longrightarrow> 2 ^ (bitLen n - 1) \<le> n \<and> n < 2 ^ bitLen n"
proof (induction n rule: bitLen.induct)
  case (1 n)
  have unf: "bitLen n = Suc (bitLen (n div 2))"
    using "1.prems" by (rule bitLen_pos)
  show ?case
  proof (cases "n div 2 = 0")
    case True
    then have "n = 1" using "1.prems" by presburger
    then show ?thesis using unf by (simp add: bitLen_nonpos)
  next
    case False
    then have pos: "0 < n div 2" using "1.prems" by presburger
    with "1.IH" "1.prems" have ih: "2 ^ (bitLen (n div 2) - 1) \<le> n div 2"
      "n div 2 < 2 ^ bitLen (n div 2)"
      by simp_all
    have "0 < bitLen (n div 2)"
      using pos by (simp add: bitLen_pos)
    then have s: "bitLen (n div 2) = Suc (bitLen (n div 2) - 1)" by simp
    have "(2::int) ^ bitLen (n div 2) = 2 * 2 ^ (bitLen (n div 2) - 1)"
      by (subst s) simp
    with ih(1) have lo: "(2::int) ^ bitLen (n div 2) \<le> n" by linarith
    have hi: "n < 2 * 2 ^ bitLen (n div 2)" using ih(2) by linarith
    show ?thesis using lo hi unf by simp
  qed
qed

lemma bitLen_less_iff: "0 < x \<Longrightarrow> (k < bitLen x) = (2 ^ k \<le> x)"
proof
  assume x: "0 < x" and k: "k < bitLen x"
  then have "k \<le> bitLen x - 1" by simp
  then have "(2::int) ^ k \<le> 2 ^ (bitLen x - 1)" by (intro power_increasing) simp_all
  with bitLen_bounds [OF x] show "2 ^ k \<le> x" by linarith
next
  assume x: "0 < x" and k: "2 ^ k \<le> x"
  with bitLen_bounds [OF x] have "(2::int) ^ k < 2 ^ bitLen x" by linarith
  then show "k < bitLen x" by (simp only: power_strict_increasing_iff)
qed

lemma bitLen_shift: "0 < q \<Longrightarrow> bitLen (q * 2 ^ e) = bitLen q + e"
proof (induction e)
  case 0
  then show ?case by simp
next
  case (Suc e)
  have "0 < q * 2 ^ Suc e" using Suc.prems by simp
  then have "bitLen (q * 2 ^ Suc e) = Suc (bitLen (q * 2 ^ Suc e div 2))" by (rule bitLen_pos)
  also have "q * 2 ^ Suc e div 2 = q * 2 ^ e" by simp
  finally show ?case using Suc by simp
qed

lemma roundToDouble_small: "n < 2 ^ 53 \<Longrightarrow> roundToDouble n = Num n"
  by (simp add: roundToDouble_def)

text \<open>The test for \<open>Infinity\<close> is the comparison with \<open>2^1024\<close>, and a number of
  \<open>2^53\<close> or more is never rounded to less than \<open>2^53\<close>.\<close>

lemma roundToDouble_large:
  assumes "2 ^ 53 \<le> n"
  shows "\<exists>q' e. 2 ^ 53 \<le> q' * 2 ^ e
           \<and> roundToDouble n = (if 2 ^ 1024 \<le> q' * 2 ^ e then Infinity else Num (q' * 2 ^ e))"
proof -
  define e where "e = bitLen n - 53"
  define q where "q = n div 2 ^ e"
  define q' where "q' = (if 2 ^ (e - 1) < n mod 2 ^ e \<or> (n mod 2 ^ e = 2 ^ (e - 1) \<and> odd q)
      then q + 1 else q)"
  have "(0::int) < 2 ^ 53" by simp
  with assms have pos: "0 < n" by linarith
  note b = bitLen_bounds [OF pos]
  have "(2::int) ^ 53 < 2 ^ bitLen n" using assms b by linarith
  then have len: "53 < bitLen n" by (simp only: power_strict_increasing_iff)
  then have split: "bitLen n - 1 = 52 + e" by (simp add: e_def)
  have le: "(2::int) ^ 52 * 2 ^ e \<le> n" using b split by (simp add: power_add)
  have "((2::int) ^ 52 * 2 ^ e) div 2 ^ e \<le> n div 2 ^ e"
    using le by (intro zdiv_mono1) simp_all
  then have "(2::int) ^ 52 \<le> q" unfolding q_def by simp
  moreover have "q \<le> q'" by (simp add: q'_def)
  ultimately have q': "(2::int) ^ 52 \<le> q'" by linarith
  have "(0::int) < 2 ^ 52" by simp
  with q' have q'pos: "0 < q'" by linarith
  have e: "1 \<le> e" using len by (simp add: e_def)
  then have "(2::int) ^ 1 \<le> 2 ^ e" by (intro power_increasing) simp_all
  then have "(2::int) ^ 52 * 2 ^ 1 \<le> q' * 2 ^ e" using q' by (intro mult_mono) simp_all
  then have big: "(2::int) ^ 53 \<le> q' * 2 ^ e" by simp
  have inf: "(1024 < bitLen q' + e) = (2 ^ 1024 \<le> q' * 2 ^ e)"
    using bitLen_less_iff [of "q' * 2 ^ e" 1024] q'pos by (simp add: bitLen_shift)
  have "roundToDouble n = (if 1024 < bitLen q' + e then Infinity else Num (q' * 2 ^ e))"
    using assms unfolding roundToDouble_def Let_def e_def q_def q'_def by simp
  then have "roundToDouble n = (if 2 ^ 1024 \<le> q' * 2 ^ e then Infinity else Num (q' * 2 ^ e))"
    unfolding inf .
  with big show ?thesis by blast
qed

lemma parseIntDigits_exact:
  assumes "parseDigits ds < 2 ^ 53"
  shows "parseIntDigits ds = Num (int (parseDigits ds))"
proof -
  from assms have "int (parseDigits ds) < int (2 ^ 53)" by (simp only: of_nat_less_iff)
  then have "int (parseDigits ds) < 2 ^ 53" by simp
  then show ?thesis by (simp add: parseIntDigits_def roundToDouble_small)
qed

lemma parseIntDigits_eq_iff:
  assumes "w < 2 ^ 53"
  shows "(parseIntDigits ds = Num w) = (int (parseDigits ds) = w)"
proof (cases "int (parseDigits ds) < 2 ^ 53")
  case True
  then show ?thesis by (simp add: parseIntDigits_def roundToDouble_small)
next
  case False
  then have big: "2 ^ 53 \<le> int (parseDigits ds)" by simp
  with assms have ne: "int (parseDigits ds) \<noteq> w" by linarith
  from roundToDouble_large [OF big] obtain q' e where
    "2 ^ 53 \<le> q' * 2 ^ e"
    "parseIntDigits ds = (if 2 ^ 1024 \<le> q' * 2 ^ e then Infinity else Num (q' * 2 ^ e))"
    unfolding parseIntDigits_def by blast
  with assms have "parseIntDigits ds \<noteq> Num w" by (auto split: if_splits)
  with ne show ?thesis by simp
qed

text \<open>Ties go to the even neighbour: down from \<open>2^53 + 1\<close>, up from \<open>2^53 + 3\<close>.\<close>

lemma roundToDouble_tie_down: "roundToDouble 9007199254740993 = Num 9007199254740992"
  by code_simp

lemma roundToDouble_tie_up: "roundToDouble 9007199254740995 = Num 9007199254740996"
  by code_simp

lemma parseDigits_beyond_exact: "int (parseDigits ''9007199254740993'') = 9007199254740993"
  by (simp add: parseDigits_def digitValue_def)

lemma parseIntDigits_beyond_exact:
  "parseIntDigits ''9007199254740993'' = Num 9007199254740992"
  unfolding parseIntDigits_def parseDigits_beyond_exact by (rule roundToDouble_tie_down)

section \<open>Arguments\<close>

lemma indexOfArg_Some: "indexOfArg args f = Some i \<Longrightarrow> i < length args \<and> args ! i = f"
proof (induction args arbitrary: i)
  case Nil
  then show ?case by simp
next
  case (Cons a as)
  then show ?case by (auto split: if_splits)
qed

lemma indexOfArg_not_butlast:
  assumes "indexOfArg args f = Some i" and "f \<notin> set (butlast args)"
  shows "\<not> i + 1 < length args"
proof
  assume "i + 1 < length args"
  then have i: "i < length (butlast args)" by simp
  then have "butlast args ! i \<in> set (butlast args)" by (rule nth_mem)
  moreover have "butlast args ! i = args ! i" using i by (simp add: nth_butlast)
  ultimately show False using assms indexOfArg_Some [of args f i] by simp
qed

lemma getArgValue_None:
  "(\<forall>f \<in> set flags. f \<notin> set (butlast args)) \<Longrightarrow> getArgValue args flags = None"
proof (induction flags)
  case Nil
  then show ?case by simp
next
  case (Cons f fs)
  then show ?case
    by (auto split: option.splits dest: indexOfArg_not_butlast)
qed

lemma getCurrentDay_not_InvalidDay: "getCurrentDay z now \<noteq> Inl (InvalidDay s)"
  by (simp add: getCurrentDay_def Let_def)

text \<open>
  Claim C10. When a flag that takes a value (\<open>--week\<close>/\<open>-w\<close> or \<open>--day\<close>/\<open>-d\<close>)
  occurs only as the last argument, with nothing behind it, \<open>getArgValue\<close> returns
  \<open>null\<close> for it. The week section of \<open>main\<close> then keeps the week of the current
  date, and the day section takes the current weekday from \<open>getCurrentDay\<close>; neither
  reports an invalid week or an invalid day.
\<close>

theorem C10_flag_without_value:
  "args \<noteq> [] \<and> last args \<in> set flags \<and> (\<forall>f \<in> set flags. f \<notin> set (butlast args)) \<longrightarrow>
     getArgValue args flags = None
     \<and> (flags = [''--week'', ''-w''] \<longrightarrow> selectWeek z today args = Inr (getWeekNumber z today))
     \<and> (flags = [''--day'', ''-d''] \<longrightarrow>
          selectDay z now args = getCurrentDay z now
          \<and> (\<forall>s. selectDay z now args \<noteq> Inl (InvalidDay s)))"
  by (auto simp: getArgValue_None selectWeek_def selectDay_def getCurrentDay_not_InvalidDay
           simp del: getArgValue.simps)

theorem C10_flag_without_value_witness:
  "getArgValue [''--no-allergies'', ''--week''] [''--week'', ''-w''] = None
   \<and> selectWeek (fixedZone 0) 1704067200000 [''--no-allergies'', ''--week''] = Inr 1"
proof -
  have "getWeekNumber (fixedZone 0) 1704067200000 = 1" by code_simp
  then show ?thesis
    using C10_flag_without_value [of "[''--no-allergies'', ''--week'']" "[''--week'', ''-w'']"
        "fixedZone 0" 1704067200000]
    by simp
qed

section \<open>The weekday table\<close>

lemma find_unique:
  "d \<in> set xs \<Longrightarrow> P d \<Longrightarrow> (\<forall>x \<in> set xs. P x \<longrightarrow> d = x) \<Longrightarrow> find P xs = Some d"
proof (induction xs)
  case Nil
  then show ?case by simp
next
  case (Cons a xs)
  show ?case
  proof (cases "P a")
    case True
    with Cons.prems(3) have "d = a" by simp
    with True show ?thesis by simp
  next
    case False
    with Cons.prems(1,2) have "d \<in> set xs" by auto
    moreover from Cons.prems(3) have "\<forall>x \<in> set xs. P x \<longrightarrow> d = x" by simp
    ultimately have "find P xs = Some d" using Cons.IH Cons.prems(2) by blast
    with False show ?thesis by simp
  qed
qed

lemma find_Some_mem: "find P xs = Some d \<Longrightarrow> d \<in> set xs \<and> P d"
  by (induction xs) (auto split: if_splits)

lemma WEEKDAYS_names_distinct:
  "\<forall>d1 \<in> set WEEKDAYS. \<forall>d2 \<in> set WEEKDAYS.
     (danish d1 = danish d2 \<or> danish d1 = english d2 \<or> english d1 = danish d2
      \<or> english d1 = english d2) \<longrightarrow> d1 = d2"
  by (simp add: WEEKDAYS_def)

lemma getDayByName_iff:
  "getDayByName name = Some d \<longleftrightarrow>
     d \<in> set WEEKDAYS \<and> (danish d = toLowerCase name \<or> english d = toLowerCase name)"
proof
  assume "getDayByName name = Some d"
  then show "d \<in> set WEEKDAYS \<and> (danish d = toLowerCase name \<or> english d = toLowerCase name)"
    unfolding getDayByName_def Let_def by (rule find_Some_mem)
next
  assume d: "d \<in> set WEEKDAYS \<and> (danish d = toLowerCase name \<or> english d = toLowerCase name)"
  have "\<forall>x \<in> set WEEKDAYS.
          (danish x = toLowerCase name \<or> english x = toLowerCase name) \<longrightarrow> d = x"
  proof (intro ballI impI)
    fix x
    assume x: "x \<in> set WEEKDAYS" "danish x = toLowerCase name \<or> english x = toLowerCase name"
    with d have "danish x = danish d \<or> danish x = english d \<or> english x = danish d
                 \<or> english x = english d"
      by metis
    with x(1) d show "d = x" using WEEKDAYS_names_distinct by blast
  qed
  with d show "getDayByName name = Some d"
    unfolding getDayByName_def Let_def by (intro find_unique) auto
qed

lemma getDayByName_None_iff:
  "getDayByName name = None \<longleftrightarrow>
     (\<forall>d \<in> set WEEKDAYS. danish d \<noteq> toLowerCase name \<and> english d \<noteq> toLowerCase name)"
  unfolding getDayByName_def Let_def by (auto simp: find_None_iff)

lemma getDayByName_empty: "getDayByName [] = None"
  by (simp add: getDayByName_def WEEKDAYS_def toLowerCase_def)

lemma selectDay_override:
  "getArgValue args [''--day'', ''-d''] = Some dayArg \<Longrightarrow> dayArg \<noteq> [] \<Longrightarrow>
   selectDay z now args =
     (case getDayByName dayArg of None \<Rightarrow> Inl (InvalidDay dayArg) | Some day \<Rightarrow> Inr day)"
  by (simp add: selectDay_def del: getArgValue.simps)

text \<open>
  Claim C6. \<open>getDayByName\<close> returns the entry of the weekday table whose Danish
  name or English identifier is the input in lower case, and returns no entry when there
  is none: \<open>mandag\<close> and \<open>monday\<close> give the Monday entry, the Danish Saturday gives none.
  The claim goes on: an invalid day override fails with an invalid day condition. That
  fails for the empty override: \<open>--day ""\<close> names no weekday, yet \<open>if (dayArg)\<close> takes
  the empty string for an absent override, and on Monday 2024-01-01 the run goes on with
  Monday.
\<close>

theorem C6_counterexample:
  "getDayByName [] = None
   \<and> selectDay (fixedZone 0) 1704067200000 [''--day'', []] = Inr \<lparr>danish = ''mandag'', english = ''monday''\<rparr>"
  by code_simp

text \<open>
  Claim C6, amended. \<open>getDayByName\<close> is as the claim says, and a day override that is
  not empty and matches no entry fails with the invalid day condition, whose message
  names the input and lists the ten valid names.
\<close>

theorem C6_getDayByName:
  "(getDayByName name = Some d \<longleftrightarrow>
      d \<in> set WEEKDAYS \<and> (danish d = toLowerCase name \<or> english d = toLowerCase name))
   \<and> (getDayByName name = None \<longleftrightarrow>
      (\<forall>e \<in> set WEEKDAYS. danish e \<noteq> toLowerCase name \<and> english e \<noteq> toLowerCase name))
   \<and> getDayByName ''mandag'' = Some \<lparr>danish = ''mandag'', english = ''monday''\<rparr>
   \<and> getDayByName ''monday'' = Some \<lparr>danish = ''mandag'', english = ''monday''\<rparr>
   \<and> getDayByName (''l'' @ [CHR 0xF8] @ ''rdag'') = None
   \<and> (getArgValue args [''--day'', ''-d''] = Some dayArg \<and> dayArg \<noteq> []
        \<and> getDayByName dayArg = None \<longrightarrow>
          selectDay z now args = Inl (InvalidDay dayArg)
          \<and> errorMessage (InvalidDay dayArg) =
              ''Invalid day: '' @ dayArg @ ''. Valid days: mandag/monday, tirsdag/tuesday, onsdag/wednesday, torsdag/thursday, fredag/friday'')"
proof -
  have ex1: "getDayByName ''mandag'' = Some \<lparr>danish = ''mandag'', english = ''monday''\<rparr>"
    by code_simp
  have ex2: "getDayByName ''monday'' = Some \<lparr>danish = ''mandag'', english = ''monday''\<rparr>"
    by code_simp
  have ex3: "getDayByName (''l'' @ [CHR 0xF8] @ ''rdag'') = None"
    by code_simp
  have vd: "validDays = ''mandag/monday, tirsdag/tuesday, onsdag/wednesday, torsdag/thursday, fredag/friday''"
    by (simp add: validDays_def WEEKDAYS_def)
  show ?thesis
    using getDayByName_iff [of name d] getDayByName_None_iff [of name] ex1 ex2 ex3
    by (simp add: selectDay_override vd del: getArgValue.simps)
qed

theorem C6_getDayByName_witness:
  "getDayByName ''FREDAG'' = Some \<lparr>danish = ''fredag'', english = ''friday''\<rparr>
   \<and> selectDay (fixedZone 0) 0 [''-d'', ''sunday''] = Inl (InvalidDay ''sunday'')"
proof -
  have a: "\<lparr>danish = ''fredag'', english = ''friday''\<rparr> \<in> set WEEKDAYS"
    by (simp add: WEEKDAYS_def)
  have b: "toLowerCase ''FREDAG'' = ''fredag''" by code_simp
  have c: "getArgValue [''-d'', ''sunday''] [''--day'', ''-d''] = Some ''sunday''" by simp
  have d: "getDayByName ''sunday'' = None" by code_simp
  show ?thesis
    using C6_getDayByName [of "''FREDAG''" "\<lparr>danish = ''fredag'', english = ''friday''\<rparr>"
        "[''-d'', ''sunday'']" "''sunday''" "fixedZone 0" 0] a b c d
    by simp
qed


section \<open>The target of the run\<close>

lemma main_reaches_day:
  "\<not> (''--help'' \<in> set args \<or> ''-h'' \<in> set args) \<Longrightarrow>
   selectWeek (zoneOf e) (clockMain e) args = Inr w \<Longrightarrow>
   selectDay (zoneOf e) (clockDay e) args = Inl err \<Longrightarrow>
   main e args = Failed err"
  by (simp add: main_def)

lemma main_not_found:
  "\<not> (''--help'' \<in> set args \<or> ''-h'' \<in> set args) \<Longrightarrow>
   selectWeek (zoneOf e) (clockMain e) args = Inr w \<Longrightarrow>
   selectDay (zoneOf e) (clockDay e) args = Inr d \<Longrightarrow>
   findMenuPdfUrl (pageDoc e) (pageHtml e) w (danish d) = None \<Longrightarrow>
   main e args = Failed (CouldNotFindPdf d w)"
  by (simp add: main_def)

lemma selectWeek_not_weekend: "selectWeek z today args \<noteq> Inl NoMenuOnWeekends"
  by (simp add: selectWeek_def split: option.splits del: getArgValue.simps)

text \<open>
  Claim C7, as stated, does not hold of every run on a Saturday without a day override:
  \<open>main\<close> handles the help flag and the week override before it looks at the day. In UTC
  on Saturday 2024-01-06, with no day override, the run with \<open>--week 99\<close> fails with the
  error of an invalid week, and the run with \<open>--help\<close> prints the usage and ends well.
\<close>

theorem C7_counterexample:
  "getDay (zoneOf saturdayEnv) (clockDay saturdayEnv) = 6
   \<and> getArgValue [''--week'', ''99''] [''--day'', ''-d''] = None
   \<and> main saturdayEnv [''--week'', ''99''] = Failed (InvalidWeek ''99'')
   \<and> getArgValue [''--help''] [''--day'', ''-d''] = None
   \<and> main saturdayEnv [''--help''] = HelpShown"
  by code_simp

text \<open>
  Claim C7, amended. Without a day override, on a Saturday or a Sunday (as
  \<open>getCurrentDay\<close> reads the clock), the day section of \<open>main\<close> fails with "No menu
  available on weekends", and so does the run when no help flag is given and the week
  section has given a week (no week override, or a valid one). With a day override that
  names a weekday, the override is the target weekday whatever the date:
  \<open>getCurrentDay\<close> is not called, the run does not depend on the clock that
  \<open>getCurrentDay\<close> would read, and it never ends with the weekend error.
\<close>

theorem C7_weekend:
  "(getArgValue args [''--day'', ''-d''] = None \<and> (getDay z now = 0 \<or> getDay z now = 6) \<longrightarrow>
      selectDay z now args = Inl NoMenuOnWeekends
      \<and> errorMessage NoMenuOnWeekends = ''No menu available on weekends'')
   \<and> (getArgValue args [''--day'', ''-d''] = None
        \<and> (getDay (zoneOf e) (clockDay e) = 0 \<or> getDay (zoneOf e) (clockDay e) = 6)
        \<and> ''--help'' \<notin> set args \<and> ''-h'' \<notin> set args
        \<and> selectWeek (zoneOf e) (clockMain e) args = Inr w \<longrightarrow>
      main e args = Failed NoMenuOnWeekends)
   \<and> (getArgValue args [''--day'', ''-d''] = Some dayArg \<and> getDayByName dayArg = Some d \<longrightarrow>
      selectDay z now args = Inr d)
   \<and> (getArgValue args [''--day'', ''-d''] = Some dayArg \<and> getDayByName dayArg = Some d \<longrightarrow>
      main (e\<lparr>clockDay := t\<rparr>) args = main e args
      \<and> main e args \<noteq> Failed NoMenuOnWeekends)"
proof -
  have a: "getArgValue args [''--day'', ''-d''] = None \<Longrightarrow> getDay z now = 0 \<or> getDay z now = 6 \<Longrightarrow>
      selectDay z now args = Inl NoMenuOnWeekends" for z now
    by (auto simp: selectDay_def getCurrentDay_def simp del: getArgValue.simps)
  have b: "getArgValue args [''--day'', ''-d''] = Some dayArg \<Longrightarrow> getDayByName dayArg = Some d \<Longrightarrow>
      selectDay z now args = Inr d" for z now
    using getDayByName_empty by (auto simp: selectDay_def simp del: getArgValue.simps)
  have c: "main (e\<lparr>clockDay := t\<rparr>) args = main e args"
    if "getArgValue args [''--day'', ''-d''] = Some dayArg" and "getDayByName dayArg = Some d"
    using b [OF that]
    by (simp add: main_def Let_def del: getArgValue.simps
          cong: sum.case_cong option.case_cong if_cong)
  have d: "main e args \<noteq> Failed NoMenuOnWeekends"
    if "getArgValue args [''--day'', ''-d''] = Some dayArg" and "getDayByName dayArg = Some d"
    using b [OF that] selectWeek_not_weekend [of "zoneOf e" "clockMain e" args]
    by (auto simp: main_def Let_def split: sum.splits option.splits
          simp del: getArgValue.simps)
  show ?thesis
    using a b c d main_reaches_day [of args e w NoMenuOnWeekends] by auto
qed

theorem C7_weekend_witness:
  "selectDay (fixedZone 0) 1704499200000 [''--no-allergies''] = Inl NoMenuOnWeekends
   \<and> main saturdayEnv [''--no-allergies''] = Failed NoMenuOnWeekends
   \<and> selectDay (fixedZone 0) 1704499200000 [''--day'', ''Friday'']
       = Inr \<lparr>danish = ''fredag'', english = ''friday''\<rparr>
   \<and> main (saturdayEnv\<lparr>clockDay := 0\<rparr>) [''--day'', ''Friday'']
       = main saturdayEnv [''--day'', ''Friday'']
   \<and> main saturdayEnv [''--day'', ''Friday''] \<noteq> Failed NoMenuOnWeekends"
proof -
  have a: "getArgValue [''--no-allergies''] [''--day'', ''-d''] = None" by simp
  have b: "getDay (fixedZone 0) 1704499200000 = 6" by code_simp
  have b': "getDay (zoneOf saturdayEnv) (clockDay saturdayEnv) = 6" by code_simp
  have h: "''--help'' \<notin> set [''--no-allergies'']" "''-h'' \<notin> set [''--no-allergies'']"
    by simp_all
  have w: "selectWeek (zoneOf saturdayEnv) (clockMain saturdayEnv) [''--no-allergies''] = Inr 1"
    by code_simp
  have c: "getArgValue [''--day'', ''Friday''] [''--day'', ''-d''] = Some ''Friday''" by simp
  have d: "getDayByName ''Friday'' = Some \<lparr>danish = ''fredag'', english = ''friday''\<rparr>"
    by code_simp
  note T1 = C7_weekend [where args = "[''--no-allergies'']" and z = "fixedZone 0"
      and now = 1704499200000 and e = saturdayEnv and w = 1]
  note T2 = C7_weekend [where args = "[''--day'', ''Friday'']" and dayArg = "''Friday''"
      and d = "\<lparr>danish = ''fredag'', english = ''friday''\<rparr>" and z = "fixedZone 0"
      and now = 1704499200000 and e = saturdayEnv and t = 0]
  have r1: "selectDay (fixedZone 0) 1704499200000 [''--no-allergies''] = Inl NoMenuOnWeekends"
    using T1 [THEN conjunct1] a b by simp
  have r2: "main saturdayEnv [''--no-allergies''] = Failed NoMenuOnWeekends"
    using T1 [THEN conjunct2, THEN conjunct1] a b' h w by simp
  have r3: "selectDay (fixedZone 0) 1704499200000 [''--day'', ''Friday'']
       = Inr \<lparr>danish = ''fredag'', english = ''friday''\<rparr>"
    using T2 [THEN conjunct2, THEN conjunct2, THEN conjunct1] c d by simp
  have r4: "main (saturdayEnv\<lparr>clockDay := 0\<rparr>) [''--day'', ''Friday'']
       = main saturdayEnv [''--day'', ''Friday'']
     \<and> main saturdayEnv [''--day'', ''Friday''] \<noteq> Failed NoMenuOnWeekends"
    using T2 [THEN conjunct2, THEN conjunct2, THEN conjunct2] c d by simp
  from r1 r2 r3 r4 show ?thesis by (simp only: simp_thms)
qed

lemma digit_not_space: "isDigit c \<Longrightarrow> \<not> isWhitespace c"
  by (auto simp: isDigit_def isWhitespace_def)

lemma digit_not_sign: "isDigit c \<Longrightarrow> c \<noteq> CHR ''-'' \<and> c \<noteq> CHR ''+''"
  by (auto simp: isDigit_def)

lemma parseInt_digits:
  assumes "ds \<noteq> []" and "\<forall>c \<in> set ds. isDigit c"
  shows "parseInt ds = Some (int (parseDigits ds))"
proof -
  obtain c cs where ds: "ds = c # cs" using assms(1) by (cases ds) auto
  then have c: "isDigit c" using assms(2) by simp
  have t: "\<forall>x \<in> set cs. isDigit x"
    using assms(2) unfolding ds by simp
  show ?thesis
    unfolding ds using c t digit_not_space [OF c] digit_not_sign [OF c]
    by (simp add: parseInt_def Let_def takeWhile_eq_all_conv [THEN iffD2])
qed

lemma parseInt_minus_digits:
  assumes "ds \<noteq> []" and "\<forall>c \<in> set ds. isDigit c"
  shows "parseInt (CHR ''-'' # ds) = Some (- int (parseDigits ds))"
proof -
  have "\<not> isWhitespace CHR ''-''" by (simp add: isWhitespace_def)
  then show ?thesis
    using assms by (simp add: parseInt_def Let_def takeWhile_eq_all_conv [THEN iffD2])
qed

lemma parseInt_no_number:
  assumes "s \<noteq> []" and "\<not> isWhitespace (hd s)" and "\<not> isDigit (hd s)"
    and "hd s \<noteq> CHR ''-''" and "hd s \<noteq> CHR ''+''"
  shows "parseInt s = None"
proof -
  obtain c cs where s: "s = c # cs" using assms(1) by (cases s) auto
  show ?thesis using assms unfolding s by (simp add: parseInt_def Let_def)
qed

lemma selectWeek_override:
  "getArgValue args [''--week'', ''-w''] = Some weekArg \<Longrightarrow> weekArg \<noteq> [] \<Longrightarrow>
   selectWeek z today args =
     (case parseInt weekArg of
        None \<Rightarrow> Inl (InvalidWeek weekArg)
      | Some n \<Rightarrow> if 1 \<le> n \<and> n \<le> 53 then Inr n else Inl (InvalidWeek weekArg))"
  by (auto simp: selectWeek_def simp del: getArgValue.simps split: option.splits)

text \<open>
  Claim C5 says that a week override that does not denote an integer from 1 to 53 fails
  with the invalid week condition. The override goes through \<open>parseInt\<close>, which reads
  the digits at the start and ignores the rest, and through \<open>if (weekArg)\<close>, which
  takes the empty string for an absent override: \<open>3abc\<close> is accepted as week 3, and
  with the empty override the run keeps the week of the current date (week 27 on
  2024-07-03).
\<close>

theorem C5_counterexample:
  "selectWeek (fixedZone 0) 1704067200000 [''--week'', ''3abc''] = Inr 3
   \<and> selectWeek (fixedZone 0) 1720000000000 [''--week'', []] = Inr 27"
  by code_simp

text \<open>
  Claim C5, amended. For a week override that is not empty, the week section of \<open>main\<close>
  takes the integer \<open>parseInt\<close> reads at its start; it accepts it as the target week
  when it is from 1 to 53, and fails with the invalid week condition, whose message
  names the override, when it is outside or when \<open>parseInt\<close> finds no number. A string
  of digits is read as the number it denotes (negated behind a minus sign), and a string
  that starts with a character other than white space, a sign or a digit holds no number.
  So 1 and 53 are accepted; 0, 54 and \<open>abc\<close> are refused.
\<close>

theorem C5_week_override:
  "(getArgValue args [''--week'', ''-w''] = Some weekArg \<and> weekArg \<noteq> [] \<longrightarrow>
      selectWeek z today args =
        (case parseInt weekArg of
           None \<Rightarrow> Inl (InvalidWeek weekArg)
         | Some n \<Rightarrow> if 1 \<le> n \<and> n \<le> 53 then Inr n else Inl (InvalidWeek weekArg)))
   \<and> (ds \<noteq> [] \<and> (\<forall>c \<in> set ds. isDigit c) \<longrightarrow>
        parseInt ds = Some (int (parseDigits ds))
        \<and> parseInt (CHR ''-'' # ds) = Some (- int (parseDigits ds)))
   \<and> (s \<noteq> [] \<and> \<not> isWhitespace (hd s) \<and> \<not> isDigit (hd s) \<and> hd s \<noteq> CHR ''-''
        \<and> hd s \<noteq> CHR ''+'' \<longrightarrow> parseInt s = None)
   \<and> errorMessage (InvalidWeek weekArg)
        = ''Invalid week number: '' @ weekArg @ ''. Must be between 1 and 53.''
   \<and> selectWeek z today [''--week'', ''1''] = Inr 1
   \<and> selectWeek z today [''-w'', ''53''] = Inr 53
   \<and> selectWeek z today [''--week'', ''0''] = Inl (InvalidWeek ''0'')
   \<and> selectWeek z today [''--week'', ''54''] = Inl (InvalidWeek ''54'')
   \<and> selectWeek z today [''--week'', ''abc''] = Inl (InvalidWeek ''abc'')"
proof -
  have p1: "parseInt ''1'' = Some 1" by code_simp
  have p53: "parseInt ''53'' = Some 53" by code_simp
  have p0: "parseInt ''0'' = Some 0" by code_simp
  have p54: "parseInt ''54'' = Some 54" by code_simp
  have pabc: "parseInt ''abc'' = None" by code_simp
  have e1: "selectWeek z today [''--week'', ''1''] = Inr 1"
    using selectWeek_override [of "[''--week'', ''1'']" "''1''" z today] p1 by simp
  have e53: "selectWeek z today [''-w'', ''53''] = Inr 53"
    using selectWeek_override [of "[''-w'', ''53'']" "''53''" z today] p53 by simp
  have e0: "selectWeek z today [''--week'', ''0''] = Inl (InvalidWeek ''0'')"
    using selectWeek_override [of "[''--week'', ''0'']" "''0''" z today] p0 by simp
  have e54: "selectWeek z today [''--week'', ''54''] = Inl (InvalidWeek ''54'')"
    using selectWeek_override [of "[''--week'', ''54'']" "''54''" z today] p54 by simp
  have eabc: "selectWeek z today [''--week'', ''abc''] = Inl (InvalidWeek ''abc'')"
    using selectWeek_override [of "[''--week'', ''abc'']" "''abc''" z today] pabc by simp
  show ?thesis
    using selectWeek_override [of args weekArg z today] parseInt_digits [of ds]
      parseInt_minus_digits [of ds] parseInt_no_number [of s] e1 e53 e0 e54 eabc
    by simp
qed

theorem C5_week_override_witness:
  "selectWeek (fixedZone 0) 0 [''--day'', ''mandag'', ''--week'', ''12''] = Inr 12
   \<and> parseInt ''12'' = Some 12 \<and> parseInt ''-12'' = Some (- 12) \<and> parseInt ''x1'' = None"
proof -
  have a: "getArgValue [''--day'', ''mandag'', ''--week'', ''12''] [''--week'', ''-w''] = Some ''12''"
    by simp
  have d: "\<forall>c \<in> set ''12''. isDigit c" by (simp add: isDigit_def)
  have v: "parseDigits ''12'' = 12" by code_simp
  have x: "\<not> isWhitespace CHR ''x'' \<and> \<not> isDigit CHR ''x''"
    by (simp add: isDigit_def isWhitespace_def)
  show ?thesis
    using C5_week_override [where args = "[''--day'', ''mandag'', ''--week'', ''12'']"
        and weekArg = "''12''" and z = "fixedZone 0" and today = 0 and ds = "''12''"
        and s = "''x1''"] a d v x
    by simp
qed

section \<open>Selection among the candidates\<close>

lemma find_None_all: "(find P xs = None) = (\<forall>x \<in> set xs. \<not> P x)"
  by (auto simp: find_None_iff)

lemma find_append_first:
  "\<forall>x \<in> set xs. \<not> P x \<Longrightarrow> P y \<Longrightarrow> find P (xs @ y # ys) = Some y"
  by (induction xs) simp_all

lemma bodyHtmlOf_anchors: "bodyHtmlOf (doc\<lparr>anchors := els\<rparr>) html = bodyHtmlOf doc html"
  by (simp add: bodyHtmlOf_def)

lemma candidatesOf_append:
  "anchors doc = pre @ el # others \<Longrightarrow>
   candidatesOf doc html dayName
     = candidatesOf (doc\<lparr>anchors := pre\<rparr>) html dayName
       @ candidatesOf (doc\<lparr>anchors := el # others\<rparr>) html dayName"
  by (simp add: candidatesOf_def pdfAnchors_def bodyHtmlOf_anchors map_filter_def)

lemma candidatesOf_Cons:
  "href el = Some h \<Longrightarrow> suffix ''.pdf'' h \<Longrightarrow>
   candidateOf (bodyHtmlOf doc html) dayName el = Some c \<Longrightarrow>
   candidatesOf (doc\<lparr>anchors := el # others\<rparr>) html dayName
     = c # candidatesOf (doc\<lparr>anchors := others\<rparr>) html dayName"
  by (simp add: candidatesOf_def pdfAnchors_def bodyHtmlOf_anchors map_filter_def)

text \<open>The selection takes the first candidate of the target week: a link that is a
  candidate of the target week is the result when no link before it gives one.\<close>

lemma findMenuPdfUrl_first:
  assumes "anchors doc = pre @ el # others"
    and "href el = Some h" and "suffix ''.pdf'' h"
    and "candidateOf (bodyHtmlOf doc html) dayName el = Some c"
    and "weekNum c = Some (Num weekNumber)"
    and "\<forall>c' \<in> set (candidatesOf (doc\<lparr>anchors := pre\<rparr>) html dayName).
           weekNum c' \<noteq> Some (Num weekNumber)"
  shows "findMenuPdfUrl doc html weekNumber dayName = Some (candHref c)"
proof -
  have "candidatesOf doc html dayName
      = candidatesOf (doc\<lparr>anchors := pre\<rparr>) html dayName
        @ c # candidatesOf (doc\<lparr>anchors := others\<rparr>) html dayName"
    using candidatesOf_append [OF assms(1)] candidatesOf_Cons [OF assms(2,3,4)] by simp
  moreover have "find (\<lambda>c. weekNum c = Some (Num weekNumber))
      (candidatesOf (doc\<lparr>anchors := pre\<rparr>) html dayName
        @ c # candidatesOf (doc\<lparr>anchors := others\<rparr>) html dayName) = Some c"
    using assms(5,6) by (intro find_append_first) simp_all
  ultimately show ?thesis by (simp add: findMenuPdfUrl_def Let_def)
qed

text \<open>
  Claim C3. When no candidate has the target week: if there is exactly one candidate
  and its week is unknown, \<open>findMenuPdfUrl\<close> returns its \<open>href\<close>, whatever the
  target week; in every other case it returns \<open>null\<close>, and \<open>main\<close> fails with
  "Could not find PDF for (day) in week (N)".
\<close>

theorem C3_fallback:
  "(\<forall>c \<in> set (candidatesOf doc html dayName). weekNum c \<noteq> Some (Num weekNumber)) \<longrightarrow>
     ((\<exists>c. candidatesOf doc html dayName = [c] \<and> weekNum c = None) \<longrightarrow>
        findMenuPdfUrl doc html weekNumber dayName
          = Some (candHref (hd (candidatesOf doc html dayName))))
     \<and> (\<not> (\<exists>c. candidatesOf doc html dayName = [c] \<and> weekNum c = None) \<longrightarrow>
        findMenuPdfUrl doc html weekNumber dayName = None
        \<and> (doc = pageDoc e \<and> html = pageHtml e \<and> dayName = danish d
             \<and> ''--help'' \<notin> set args \<and> ''-h'' \<notin> set args
             \<and> selectWeek (zoneOf e) (clockMain e) args = Inr weekNumber
             \<and> selectDay (zoneOf e) (clockDay e) args = Inr d \<longrightarrow>
            main e args = Failed (CouldNotFindPdf d weekNumber)
            \<and> errorMessage (CouldNotFindPdf d weekNumber)
                = ''Could not find PDF for '' @ danish d @ '' in week '' @ showInt weekNumber))"
proof (intro impI)
  assume no: "\<forall>c \<in> set (candidatesOf doc html dayName). weekNum c \<noteq> Some (Num weekNumber)"
  then have f: "find (\<lambda>c. weekNum c = Some (Num weekNumber)) (candidatesOf doc html dayName) = None"
    by (simp add: find_None_all)
  have one: "findMenuPdfUrl doc html weekNumber dayName
          = Some (candHref (hd (candidatesOf doc html dayName)))"
    if "\<exists>c. candidatesOf doc html dayName = [c] \<and> weekNum c = None"
    using that f by (auto simp: findMenuPdfUrl_def Let_def)
  have other: "findMenuPdfUrl doc html weekNumber dayName = None"
    if "\<not> (\<exists>c. candidatesOf doc html dayName = [c] \<and> weekNum c = None)"
    using that f by (auto simp: findMenuPdfUrl_def Let_def split: list.splits)
  show "((\<exists>c. candidatesOf doc html dayName = [c] \<and> weekNum c = None) \<longrightarrow>
        findMenuPdfUrl doc html weekNumber dayName
          = Some (candHref (hd (candidatesOf doc html dayName))))
     \<and> (\<not> (\<exists>c. candidatesOf doc html dayName = [c] \<and> weekNum c = None) \<longrightarrow>
        findMenuPdfUrl doc html weekNumber dayName = None
        \<and> (doc = pageDoc e \<and> html = pageHtml e \<and> dayName = danish d
             \<and> ''--help'' \<notin> set args \<and> ''-h'' \<notin> set args
             \<and> selectWeek (zoneOf e) (clockMain e) args = Inr weekNumber
             \<and> selectDay (zoneOf e) (clockDay e) args = Inr d \<longrightarrow>
            main e args = Failed (CouldNotFindPdf d weekNumber)
            \<and> errorMessage (CouldNotFindPdf d weekNumber)
                = ''Could not find PDF for '' @ danish d @ '' in week '' @ showInt weekNumber))"
    using one other main_not_found [of args e weekNumber d] by auto
qed

lemma singleLink_candidates:
  "candidatesOf singleLinkDoc singleLinkHtml ''mandag'' = [\<lparr>candHref = ''menu.pdf'', weekNum = None\<rparr>]"
  by code_simp

theorem C3_fallback_witness:
  "findMenuPdfUrl singleLinkDoc singleLinkHtml 17 ''mandag'' = Some ''menu.pdf''"
  using C3_fallback [of singleLinkDoc singleLinkHtml "''mandag''" 17] singleLink_candidates
  by simp

section \<open>The cleanup of the menu text: matching and removal\<close>

lemma takeWhile_run:
  "(\<forall>x \<in> set xs. P x) \<Longrightarrow> ys = [] \<or> \<not> P (hd ys) \<Longrightarrow> takeWhile P (xs @ ys) = xs"
  by (cases ys) auto

lemma dropWhile_run:
  "(\<forall>x \<in> set xs. P x) \<Longrightarrow> ys = [] \<or> \<not> P (hd ys) \<Longrightarrow> dropWhile P (xs @ ys) = ys"
  by (cases ys) auto

lemma replaceAllEmpty_skip:
  "(\<forall>i < length pre. m (drop i (pre @ suf)) = None) \<Longrightarrow>
   replaceAllEmpty m (pre @ suf) = pre @ replaceAllEmpty m suf"
proof (induction pre)
  case Nil
  then show ?case by simp
next
  case (Cons c pre)
  from Cons.prems have head: "m (c # pre @ suf) = None" by force
  have "\<forall>i < length pre. m (drop i (pre @ suf)) = None"
  proof (intro allI impI)
    fix i assume "i < length pre"
    then have "m (drop (Suc i) ((c # pre) @ suf)) = None"
      using Cons.prems by (metis Suc_less_eq length_Cons)
    then show "m (drop i (pre @ suf)) = None" by simp
  qed
  then have "replaceAllEmpty m (pre @ suf) = pre @ replaceAllEmpty m suf"
    by (rule Cons.IH)
  with head show ?case by simp
qed

lemma replaceAllEmpty_match:
  "m (mid @ suf) = Some (length mid) \<Longrightarrow> mid \<noteq> [] \<Longrightarrow>
   replaceAllEmpty m (mid @ suf) = replaceAllEmpty m suf"
  by (cases mid) auto

lemma replaceAllEmpty_step:
  assumes "\<forall>i < length pre. m (drop i (pre @ mid @ suf)) = None"
    and "m (mid @ suf) = Some (length mid)" and "mid \<noteq> []"
  shows "replaceAllEmpty m (pre @ mid @ suf) = pre @ replaceAllEmpty m suf"
  using replaceAllEmpty_skip [of pre m "mid @ suf"] replaceAllEmpty_match [of m mid suf] assms
  by simp

lemma replaceAllEmpty_none:
  assumes "\<forall>i < length s. m (drop i s) = None"
  shows "replaceAllEmpty m s = s"
  using replaceAllEmpty_skip [of s m "[]"] assms by simp

lemma paren_not_space: "\<not> isWhitespace CHR ''(''"
  by (simp add: isWhitespace_def)

lemma close_not_allergy: "\<not> isAllergyChar CHR '')''"
  by (simp add: isAllergyChar_def isDigit_def isWhitespace_def)

lemma allergyInfoAt_complete:
  assumes ws: "\<forall>c \<in> set ws. isWhitespace c"
    and codes: "codes \<noteq> []" "\<forall>c \<in> set codes. isAllergyChar c"
  shows "allergyInfoAt (ws @ ''('' @ codes @ '')'' @ rest) = Some (length ws + 1 + length codes + 1)"
proof -
  have t1: "takeWhile isWhitespace (ws @ ''('' @ codes @ '')'' @ rest) = ws"
    using ws paren_not_space by (intro takeWhile_run) auto
  have d1: "dropWhile isWhitespace (ws @ ''('' @ codes @ '')'' @ rest) = ''('' @ codes @ '')'' @ rest"
    using ws paren_not_space by (intro dropWhile_run) auto
  have t2: "takeWhile isAllergyChar (codes @ '')'' @ rest) = codes"
    using codes(2) close_not_allergy by (intro takeWhile_run) auto
  have d2: "dropWhile isAllergyChar (codes @ '')'' @ rest) = '')'' @ rest"
    using codes(2) close_not_allergy by (intro dropWhile_run) auto
  show ?thesis
    unfolding allergyInfoAt_def t1 d1 using t2 d2 codes(1) by (simp add: Let_def)
qed

lemma allergyInfoAt_sound:
  assumes "allergyInfoAt s = Some n"
  shows "\<exists>ws codes rest. s = ws @ ''('' @ codes @ '')'' @ rest
           \<and> list_all isWhitespace ws \<and> codes \<noteq> [] \<and> list_all isAllergyChar codes
           \<and> n = length ws + 1 + length codes + 1"
proof -
  define ws where "ws = takeWhile isWhitespace s"
  obtain c r1 where r: "dropWhile isWhitespace s = c # r1"
    using assms by (auto simp: allergyInfoAt_def Let_def split: list.splits)
  have c: "c = CHR ''(''"
    using assms r by (auto simp: allergyInfoAt_def Let_def split: if_splits)
  define codes where "codes = takeWhile isAllergyChar r1"
  have ne: "codes \<noteq> []"
    using assms r c by (auto simp: allergyInfoAt_def Let_def codes_def split: if_splits)
  obtain e rest where r2: "dropWhile isAllergyChar r1 = e # rest"
    using assms r c ne
    by (auto simp: allergyInfoAt_def Let_def codes_def split: if_splits list.splits)
  have e: "e = CHR '')''" and n: "n = length ws + 1 + length codes + 1"
    using assms r c ne r2
    by (auto simp: allergyInfoAt_def Let_def codes_def ws_def split: if_splits)
  have "s = ws @ dropWhile isWhitespace s" by (simp add: ws_def)
  also have "dropWhile isWhitespace s = ''('' @ r1" using r c by simp
  also have "r1 = codes @ dropWhile isAllergyChar r1" by (simp add: codes_def)
  also have "dropWhile isAllergyChar r1 = '')'' @ rest" using r2 e by simp
  finally have "s = ws @ ''('' @ codes @ '')'' @ rest" .
  moreover have "list_all isWhitespace ws"
    by (auto simp: ws_def list_all_iff dest: set_takeWhileD)
  moreover have "list_all isAllergyChar codes"
    by (auto simp: codes_def list_all_iff dest: set_takeWhileD)
  ultimately show ?thesis using ne n by blast
qed

lemma main_menu_text:
  "main e args = Menu d w u txt \<Longrightarrow>
   txt = cleanMenuText (''--no-allergies'' \<in> set args \<or> ''-na'' \<in> set args) (pdfPageText e u)"
  by (auto simp: main_def Let_def split: if_splits sum.splits option.splits)

lemma space_not_digit: "isWhitespace c \<Longrightarrow> \<not> isDigit c"
  by (auto simp: isDigit_def isWhitespace_def)

lemma letter_o_class: "\<not> isWhitespace CHR ''o'' \<and> \<not> isDigit CHR ''o''"
  by (simp add: isDigit_def isWhitespace_def)

lemma hyphen_class: "\<not> isWhitespace CHR ''-'' \<and> \<not> isDigit CHR ''-''"
  by (simp add: isDigit_def isWhitespace_def)

lemma stripPrefix_append: "stripPrefix lit (lit @ r) = Some r"
  by (simp add: stripPrefix_def)

lemma stripPrefix_Some: "stripPrefix lit s = Some r \<Longrightarrow> s = lit @ r"
  by (auto simp: stripPrefix_def prefix_def split: if_splits)

lemma pageNumberAt_complete:
  assumes w1: "\<forall>c \<in> set w1. isWhitespace c"
    and d1: "d1 \<noteq> []" "\<forall>c \<in> set d1. isDigit c"
    and w2: "w2 \<noteq> []" "\<forall>c \<in> set w2. isWhitespace c"
    and w3: "w3 \<noteq> []" "\<forall>c \<in> set w3. isWhitespace c"
    and d2: "d2 \<noteq> []" "\<forall>c \<in> set d2. isDigit c"
    and w4: "\<forall>c \<in> set w4. isWhitespace c"
  shows "pageNumberAt (''--'' @ w1 @ d1 @ w2 @ ''of'' @ w3 @ d2 @ w4 @ ''--'' @ rest)
           = Some (length w1 + length d1 + length w2 + length w3 + length d2 + length w4 + 6)"
proof -
  have hd1: "\<not> isWhitespace (hd d1)" using d1 digit_not_space by (cases d1) auto
  have hw2: "\<not> isDigit (hd w2)" using w2 space_not_digit by (cases w2) auto
  have hd2: "\<not> isWhitespace (hd d2)" using d2 digit_not_space by (cases d2) auto
  have hw4: "\<not> isDigit (hd (w4 @ ''--'' @ rest))"
    using w4 space_not_digit hyphen_class by (cases w4) auto
  have r2: "dropWhile isWhitespace (w1 @ d1 @ w2 @ ''of'' @ w3 @ d2 @ w4 @ ''--'' @ rest)
              = d1 @ w2 @ ''of'' @ w3 @ d2 @ w4 @ ''--'' @ rest"
    using w1 hd1 d1(1) by (intro dropWhile_run) auto
  have t1: "takeWhile isDigit (d1 @ w2 @ ''of'' @ w3 @ d2 @ w4 @ ''--'' @ rest) = d1"
    using d1(2) hw2 w2(1) by (intro takeWhile_run) auto
  have r3: "dropWhile isDigit (d1 @ w2 @ ''of'' @ w3 @ d2 @ w4 @ ''--'' @ rest)
              = w2 @ ''of'' @ w3 @ d2 @ w4 @ ''--'' @ rest"
    using d1(2) hw2 w2(1) by (intro dropWhile_run) auto
  have t2: "takeWhile isWhitespace (w2 @ ''of'' @ w3 @ d2 @ w4 @ ''--'' @ rest) = w2"
    using w2(2) letter_o_class by (intro takeWhile_run) auto
  have r4: "dropWhile isWhitespace (w2 @ ''of'' @ w3 @ d2 @ w4 @ ''--'' @ rest)
              = ''of'' @ w3 @ d2 @ w4 @ ''--'' @ rest"
    using w2(2) letter_o_class by (intro dropWhile_run) auto
  have t3: "takeWhile isWhitespace (w3 @ d2 @ w4 @ ''--'' @ rest) = w3"
    using w3(2) hd2 d2(1) by (intro takeWhile_run) auto
  have r6: "dropWhile isWhitespace (w3 @ d2 @ w4 @ ''--'' @ rest) = d2 @ w4 @ ''--'' @ rest"
    using w3(2) hd2 d2(1) by (intro dropWhile_run) auto
  have t4: "takeWhile isDigit (d2 @ w4 @ ''--'' @ rest) = d2"
    using d2(2) hw4 by (intro takeWhile_run) auto
  have r7: "dropWhile isDigit (d2 @ w4 @ ''--'' @ rest) = w4 @ ''--'' @ rest"
    using d2(2) hw4 by (intro dropWhile_run) auto
  have r8: "dropWhile isWhitespace (w4 @ ''--'' @ rest) = ''--'' @ rest"
    using w4 hyphen_class by (intro dropWhile_run) auto
  have s1: "stripPrefix ''--'' (''--'' @ w1 @ d1 @ w2 @ ''of'' @ w3 @ d2 @ w4 @ ''--'' @ rest)
              = Some (w1 @ d1 @ w2 @ ''of'' @ w3 @ d2 @ w4 @ ''--'' @ rest)"
    by (rule stripPrefix_append)
  have s2: "stripPrefix ''of'' (''of'' @ w3 @ d2 @ w4 @ ''--'' @ rest)
              = Some (w3 @ d2 @ w4 @ ''--'' @ rest)"
    by (rule stripPrefix_append)
  have s3: "stripPrefix ''--'' (''--'' @ rest) = Some rest"
    by (rule stripPrefix_append)
  show ?thesis
    unfolding pageNumberAt_def s1 option.case Let_def r2 t1 r3 t2 r4 s2 t3 r6 t4 r7 r8 s3
    using d1(1) w2(1) w3(1) d2(1) by simp
qed

lemma pageNumberAt_sound:
  assumes "pageNumberAt s = Some n"
  shows "\<exists>w1 d1 w2 w3 d2 w4 rest.
           s = ''--'' @ w1 @ d1 @ w2 @ ''of'' @ w3 @ d2 @ w4 @ ''--'' @ rest
           \<and> list_all isWhitespace w1 \<and> d1 \<noteq> [] \<and> list_all isDigit d1
           \<and> w2 \<noteq> [] \<and> list_all isWhitespace w2 \<and> w3 \<noteq> [] \<and> list_all isWhitespace w3
           \<and> d2 \<noteq> [] \<and> list_all isDigit d2 \<and> list_all isWhitespace w4
           \<and> n = length w1 + length d1 + length w2 + length w3 + length d2 + length w4 + 6"
proof -
  obtain r1 where r1: "stripPrefix ''--'' s = Some r1"
    using assms by (auto simp: pageNumberAt_def split: option.splits)
  define w1 where "w1 = takeWhile isWhitespace r1"
  define r2 where "r2 = dropWhile isWhitespace r1"
  define d1 where "d1 = takeWhile isDigit r2"
  define r3 where "r3 = dropWhile isDigit r2"
  define w2 where "w2 = takeWhile isWhitespace r3"
  define r4 where "r4 = dropWhile isWhitespace r3"
  from assms r1 have ne1: "d1 \<noteq> []" "w2 \<noteq> []"
    by (auto simp: pageNumberAt_def Let_def d1_def r2_def w2_def r3_def split: if_splits)
  from assms r1 ne1 obtain r5 where r5: "stripPrefix ''of'' r4 = Some r5"
    by (auto simp: pageNumberAt_def Let_def d1_def r2_def w2_def r3_def r4_def
        split: if_splits option.splits)
  define w3 where "w3 = takeWhile isWhitespace r5"
  define r6 where "r6 = dropWhile isWhitespace r5"
  define d2 where "d2 = takeWhile isDigit r6"
  define r7 where "r7 = dropWhile isDigit r6"
  define w4 where "w4 = takeWhile isWhitespace r7"
  define r8 where "r8 = dropWhile isWhitespace r7"
  have unfolded: "pageNumberAt s =
      (if w3 = [] \<or> d2 = [] then None
       else (case stripPrefix ''--'' r8 of None \<Rightarrow> None | Some r9 \<Rightarrow> Some (length s - length r9)))"
    using r1 r5 ne1
    by (simp add: pageNumberAt_def Let_def d1_def r2_def w2_def r3_def r4_def w3_def r6_def
        d2_def r7_def r8_def)
  with assms have ne2: "w3 \<noteq> []" "d2 \<noteq> []"
    by (auto split: if_splits)
  from assms unfolded ne2 obtain r9 where r9: "stripPrefix ''--'' r8 = Some r9"
    and n: "n = length s - length r9"
    by (auto split: option.splits)
  have "s = ''--'' @ r1" using r1 by (rule stripPrefix_Some)
  also have "r1 = w1 @ r2" by (simp add: w1_def r2_def)
  also have "r2 = d1 @ r3" by (simp add: d1_def r3_def)
  also have "r3 = w2 @ r4" by (simp add: w2_def r4_def)
  also have "r4 = ''of'' @ r5" using r5 by (rule stripPrefix_Some)
  also have "r5 = w3 @ r6" by (simp add: w3_def r6_def)
  also have "r6 = d2 @ r7" by (simp add: d2_def r7_def)
  also have "r7 = w4 @ r8" by (simp add: w4_def r8_def)
  also have "r8 = ''--'' @ r9" using r9 by (rule stripPrefix_Some)
  finally have s: "s = ''--'' @ w1 @ d1 @ w2 @ ''of'' @ w3 @ d2 @ w4 @ ''--'' @ r9" .
  have len: "n = length w1 + length d1 + length w2 + length w3 + length d2 + length w4 + 6"
    unfolding n by (subst s) simp
  have classes: "list_all isWhitespace w1" "list_all isDigit d1" "list_all isWhitespace w2"
    "list_all isWhitespace w3" "list_all isDigit d2" "list_all isWhitespace w4"
    by (auto simp: w1_def d1_def w2_def w3_def d2_def w4_def list_all_iff dest: set_takeWhileD)
  show ?thesis
    using s len classes ne1 ne2 by blast
qed

lemma trim_spec:
  "\<exists>a b. s = a @ trim s @ b \<and> list_all isWhitespace a \<and> list_all isWhitespace b
         \<and> (trim s = [] \<or> (\<not> isWhitespace (hd (trim s)) \<and> \<not> isWhitespace (last (trim s))))"
proof -
  define a where "a = takeWhile isWhitespace s"
  define m where "m = dropWhile isWhitespace s"
  define b where "b = rev (takeWhile isWhitespace (rev m))"
  have t: "trim s = rev (dropWhile isWhitespace (rev m))" by (simp add: trim_def m_def)
  have "trim s @ b = rev (takeWhile isWhitespace (rev m) @ dropWhile isWhitespace (rev m))"
    unfolding t b_def by (simp only: rev_append)
  then have m: "m = trim s @ b" by simp
  have "s = a @ m" by (simp add: a_def m_def)
  then have s: "s = a @ trim s @ b" using m by simp
  have ca: "list_all isWhitespace a"
    by (auto simp: a_def list_all_iff dest: set_takeWhileD)
  have cb: "list_all isWhitespace b"
    by (auto simp: b_def list_all_iff dest: set_takeWhileD)
  have ends: "\<not> isWhitespace (hd (trim s)) \<and> \<not> isWhitespace (last (trim s))" if ne: "trim s \<noteq> []"
  proof -
    have d: "dropWhile isWhitespace (rev m) \<noteq> []" using ne t by simp
    then have "\<not> isWhitespace (hd (dropWhile isWhitespace (rev m)))" by (rule hd_dropWhile)
    then have l: "\<not> isWhitespace (last (trim s))" using d by (simp add: t last_rev)
    have "m \<noteq> []" using m ne by auto
    then have "\<not> isWhitespace (hd m)" unfolding m_def by (rule hd_dropWhile)
    then have "\<not> isWhitespace (hd (trim s))" using m ne by (metis hd_append2)
    with l show ?thesis by simp
  qed
  show ?thesis using s ca cb ends by blast
qed

lemma all_less_list: "(\<forall>i < n. P i) = list_all P [0..<n]"
  by (auto simp: list_all_iff)

lemma pageNumberAt_length: "pageNumberAt s = Some n \<Longrightarrow> 6 \<le> n"
  using pageNumberAt_sound [of s n] by auto

lemma allergyInfoAt_length: "allergyInfoAt s = Some n \<Longrightarrow> 2 \<le> n"
  using allergyInfoAt_sound [of s n] by auto

text \<open>
  Claim C8. \<open>removePageNumbers\<close> removes the page numbers and then trims. A page
  number is two hyphens, optional white space, digits, white space, \<open>of\<close>, white
  space, digits, optional white space and two hyphens: every string of that form is
  matched where it starts, whatever follows it, and nothing else is matched. The removal
  goes from left to right: text in which no page number starts is kept, a page number is
  dropped, and the removal goes on behind it. \<open>trim\<close> takes white space off both ends
  and nothing else. The cleanup of \<open>main\<close> starts with it in every run, and
  \<open>Soup\n-- 2 of 2 --\nSalad\<close> becomes \<open>Soup\n\nSalad\<close>.
\<close>

theorem C8_removePageNumbers:
  "((\<forall>c \<in> set w1. isWhitespace c) \<and> d1 \<noteq> [] \<and> (\<forall>c \<in> set d1. isDigit c)
      \<and> w2 \<noteq> [] \<and> (\<forall>c \<in> set w2. isWhitespace c) \<and> w3 \<noteq> [] \<and> (\<forall>c \<in> set w3. isWhitespace c)
      \<and> d2 \<noteq> [] \<and> (\<forall>c \<in> set d2. isDigit c) \<and> (\<forall>c \<in> set w4. isWhitespace c) \<longrightarrow>
      pageNumberAt (''--'' @ w1 @ d1 @ w2 @ ''of'' @ w3 @ d2 @ w4 @ ''--'' @ rest)
        = Some (length w1 + length d1 + length w2 + length w3 + length d2 + length w4 + 6))
   \<and> (pageNumberAt s = Some n \<longrightarrow>
        (\<exists>w1 d1 w2 w3 d2 w4 rest.
           s = ''--'' @ w1 @ d1 @ w2 @ ''of'' @ w3 @ d2 @ w4 @ ''--'' @ rest
           \<and> list_all isWhitespace w1 \<and> d1 \<noteq> [] \<and> list_all isDigit d1
           \<and> w2 \<noteq> [] \<and> list_all isWhitespace w2 \<and> w3 \<noteq> [] \<and> list_all isWhitespace w3
           \<and> d2 \<noteq> [] \<and> list_all isDigit d2 \<and> list_all isWhitespace w4
           \<and> n = length w1 + length d1 + length w2 + length w3 + length d2 + length w4 + 6))
   \<and> ((\<forall>i < length pre. pageNumberAt (drop i (pre @ mid @ suf)) = None)
        \<and> pageNumberAt (mid @ suf) = Some (length mid) \<longrightarrow>
        removePageNumbers (pre @ mid @ suf) = trim (pre @ replaceAllEmpty pageNumberAt suf))
   \<and> ((\<forall>i < length t. pageNumberAt (drop i t) = None) \<longrightarrow> removePageNumbers t = trim t)
   \<and> (\<exists>a b. u = a @ trim u @ b \<and> list_all isWhitespace a \<and> list_all isWhitespace b
         \<and> (trim u = [] \<or> (\<not> isWhitespace (hd (trim u)) \<and> \<not> isWhitespace (last (trim u)))))
   \<and> cleanMenuText noAllergies text
        = (if noAllergies then removeAllergyInfo (removePageNumbers text)
           else removePageNumbers text)
   \<and> removePageNumbers (''Soup'' @ [CHR 0x0A] @ ''-- 2 of 2 --'' @ [CHR 0x0A] @ ''Salad'')
        = ''Soup'' @ [CHR 0x0A, CHR 0x0A] @ ''Salad''"
proof -
  have step: "removePageNumbers (pre @ mid @ suf) = trim (pre @ replaceAllEmpty pageNumberAt suf)"
    if "\<forall>i < length pre. pageNumberAt (drop i (pre @ mid @ suf)) = None"
      and "pageNumberAt (mid @ suf) = Some (length mid)"
  proof -
    have "mid \<noteq> []" using pageNumberAt_length [OF that(2)] by auto
    then show ?thesis
      using replaceAllEmpty_step [of pre pageNumberAt mid suf] that
      by (simp add: removePageNumbers_def)
  qed
  have none: "removePageNumbers t = trim t" if "\<forall>i < length t. pageNumberAt (drop i t) = None"
    using replaceAllEmpty_none [of t pageNumberAt] that by (simp add: removePageNumbers_def)
  have ex: "removePageNumbers (''Soup'' @ [CHR 0x0A] @ ''-- 2 of 2 --'' @ [CHR 0x0A] @ ''Salad'')
        = ''Soup'' @ [CHR 0x0A, CHR 0x0A] @ ''Salad''"
    by code_simp
  have clean: "cleanMenuText noAllergies text
        = (if noAllergies then removeAllergyInfo (removePageNumbers text)
           else removePageNumbers text)"
    by (simp add: cleanMenuText_def Let_def)
  show ?thesis
    using pageNumberAt_complete [of w1 d1 w2 w3 d2 w4 rest] pageNumberAt_sound [of s n]
      step none trim_spec [of u] clean ex
    by blast
qed

theorem C8_removePageNumbers_witness:
  "pageNumberAt (''--  12 of 20--'' @ ''x'') = Some 14
   \<and> removePageNumbers (''Soup '' @ ''-- 1 of 2 --'' @ '' Salad -- 2 of 2 -- '') = ''Soup  Salad''"
proof -
  note T = C8_removePageNumbers [where ?w1.0 = "''  ''" and ?d1.0 = "''12''" and ?w2.0 = "'' ''"
        and ?w3.0 = "'' ''" and ?d2.0 = "''20''" and ?w4.0 = "[]" and rest = "''x''"
        and pre = "''Soup ''" and mid = "''-- 1 of 2 --''" and suf = "'' Salad -- 2 of 2 -- ''"]
  have c: "(\<forall>c \<in> set ''  ''. isWhitespace c) \<and> ''12'' \<noteq> [] \<and> (\<forall>c \<in> set ''12''. isDigit c)
      \<and> '' '' \<noteq> [] \<and> (\<forall>c \<in> set '' ''. isWhitespace c) \<and> '' '' \<noteq> [] \<and> (\<forall>c \<in> set '' ''. isWhitespace c)
      \<and> ''20'' \<noteq> [] \<and> (\<forall>c \<in> set ''20''. isDigit c) \<and> (\<forall>c \<in> set []. isWhitespace c)"
    by (simp add: isWhitespace_def isDigit_def)
  have pre: "\<forall>i < length ''Soup ''.
      pageNumberAt (drop i (''Soup '' @ ''-- 1 of 2 --'' @ '' Salad -- 2 of 2 -- '')) = None"
    unfolding all_less_list by code_simp
  have mid: "pageNumberAt (''-- 1 of 2 --'' @ '' Salad -- 2 of 2 -- '') = Some (length ''-- 1 of 2 --'')"
    by code_simp
  have r: "trim (''Soup '' @ replaceAllEmpty pageNumberAt '' Salad -- 2 of 2 -- '') = ''Soup  Salad''"
    by code_simp
  have A: "pageNumberAt (''--'' @ ''  '' @ ''12'' @ '' '' @ ''of'' @ '' '' @ ''20'' @ [] @ ''--'' @ ''x'')
        = Some (length ''  '' + length ''12'' + length '' '' + length '' '' + length ''20''
                + length ([] :: string) + 6)"
    by (rule T [THEN conjunct1, THEN mp, OF c])
  have B: "removePageNumbers (''Soup '' @ ''-- 1 of 2 --'' @ '' Salad -- 2 of 2 -- '')
        = trim (''Soup '' @ replaceAllEmpty pageNumberAt '' Salad -- 2 of 2 -- '')"
    by (rule T [THEN conjunct2, THEN conjunct2, THEN conjunct1, THEN mp, OF conjI [OF pre mid]])
  from A have "pageNumberAt (''--  12 of 20--'' @ ''x'') = Some 14" by simp
  with B r show ?thesis by (simp only:)
qed

text \<open>
  Claim C9. \<open>removeAllergyInfo\<close> removes the allergen markers. A marker is optional
  white space, an open parenthesis, one or more characters out of the digits, the comma,
  the letters T, K, M, N and white space, and a close parenthesis: every string of that
  form is matched where it starts, and nothing else is matched. The removal goes from
  left to right: text in which no marker starts is kept, a marker is dropped, and the
  removal goes on behind it. \<open>main\<close> applies it exactly when \<open>--no-allergies\<close> or
  \<open>-na\<close> is among the arguments, after the removal of the page numbers, and
  \<open>Chicken (3,7,12,T) with rice\<close> becomes \<open>Chicken with rice\<close>.
\<close>

theorem C9_removeAllergyInfo:
  "((\<forall>c \<in> set ws. isWhitespace c) \<and> codes \<noteq> [] \<and> (\<forall>c \<in> set codes. isAllergyChar c) \<longrightarrow>
      allergyInfoAt (ws @ ''('' @ codes @ '')'' @ rest) = Some (length ws + 1 + length codes + 1))
   \<and> (allergyInfoAt s = Some n \<longrightarrow>
        (\<exists>ws codes rest. s = ws @ ''('' @ codes @ '')'' @ rest
           \<and> list_all isWhitespace ws \<and> codes \<noteq> [] \<and> list_all isAllergyChar codes
           \<and> n = length ws + 1 + length codes + 1))
   \<and> ((\<forall>i < length pre. allergyInfoAt (drop i (pre @ mid @ suf)) = None)
        \<and> allergyInfoAt (mid @ suf) = Some (length mid) \<longrightarrow>
        removeAllergyInfo (pre @ mid @ suf) = pre @ removeAllergyInfo suf)
   \<and> ((\<forall>i < length t. allergyInfoAt (drop i t) = None) \<longrightarrow> removeAllergyInfo t = t)
   \<and> cleanMenuText True text = removeAllergyInfo (removePageNumbers text)
   \<and> cleanMenuText False text = removePageNumbers text
   \<and> (main e args = Menu d w url txt \<longrightarrow>
        txt = cleanMenuText (''--no-allergies'' \<in> set args \<or> ''-na'' \<in> set args)
                (pdfPageText e url))
   \<and> removeAllergyInfo ''Chicken (3,7,12,T) with rice'' = ''Chicken with rice''"
proof -
  have step: "removeAllergyInfo (pre @ mid @ suf) = pre @ removeAllergyInfo suf"
    if "\<forall>i < length pre. allergyInfoAt (drop i (pre @ mid @ suf)) = None"
      and "allergyInfoAt (mid @ suf) = Some (length mid)"
  proof -
    have "mid \<noteq> []" using allergyInfoAt_length [OF that(2)] by auto
    then show ?thesis
      using replaceAllEmpty_step [of pre allergyInfoAt mid suf] that
      by (simp add: removeAllergyInfo_def)
  qed
  have none: "removeAllergyInfo t = t" if "\<forall>i < length t. allergyInfoAt (drop i t) = None"
    using replaceAllEmpty_none [of t allergyInfoAt] that by (simp add: removeAllergyInfo_def)
  have ex: "removeAllergyInfo ''Chicken (3,7,12,T) with rice'' = ''Chicken with rice''"
    by code_simp
  have clean: "cleanMenuText True text = removeAllergyInfo (removePageNumbers text)"
    "cleanMenuText False text = removePageNumbers text"
    by (simp_all add: cleanMenuText_def Let_def)
  show ?thesis
    using allergyInfoAt_complete [of ws codes rest] allergyInfoAt_sound [of s n]
      step none clean ex main_menu_text [of e args d w url "txt"]
    by blast
qed

theorem C9_removeAllergyInfo_witness:
  "allergyInfoAt ('' '' @ ''('' @ ''1, 12,K'' @ '')'' @ '' soup'') = Some 10
   \<and> removeAllergyInfo (''Fish'' @ '' (4)'' @ '' and chips (fried)'') = ''Fish and chips (fried)''"
proof -
  note T = C9_removeAllergyInfo [where ws = "'' ''" and codes = "''1, 12,K''" and rest = "'' soup''"
        and pre = "''Fish''" and mid = "'' (4)''" and suf = "'' and chips (fried)''"]
  have c: "(\<forall>c \<in> set '' ''. isWhitespace c) \<and> ''1, 12,K'' \<noteq> []
           \<and> (\<forall>c \<in> set ''1, 12,K''. isAllergyChar c)"
    by (simp add: isWhitespace_def isDigit_def isAllergyChar_def)
  have pre: "\<forall>i < length ''Fish''.
      allergyInfoAt (drop i (''Fish'' @ '' (4)'' @ '' and chips (fried)'')) = None"
    unfolding all_less_list by code_simp
  have mid: "allergyInfoAt ('' (4)'' @ '' and chips (fried)'') = Some (length '' (4)'')"
    by code_simp
  have r: "removeAllergyInfo '' and chips (fried)'' = '' and chips (fried)''"
    by code_simp
  have A: "allergyInfoAt ('' '' @ ''('' @ ''1, 12,K'' @ '')'' @ '' soup'')
        = Some (length '' '' + 1 + length ''1, 12,K'' + 1)"
    by (rule T [THEN conjunct1, THEN mp, OF c])
  have B: "removeAllergyInfo (''Fish'' @ '' (4)'' @ '' and chips (fried)'')
        = ''Fish'' @ removeAllergyInfo '' and chips (fried)''"
    by (rule T [THEN conjunct2, THEN conjunct2, THEN conjunct1, THEN mp, OF conjI [OF pre mid]])
  from A have a: "allergyInfoAt ('' '' @ ''('' @ ''1, 12,K'' @ '')'' @ '' soup'') = Some 10" by simp
  from B r have "removeAllergyInfo (''Fish'' @ '' (4)'' @ '' and chips (fried)'')
        = ''Fish and chips (fried)''" by simp
  with a show ?thesis by (simp only:)
qed

section \<open>The week in the link\<close>

lemma separator_not_digit: "isUrlSeparator c \<Longrightarrow> \<not> isDigit c"
  by (auto simp: isUrlSeparator_def isDigit_def isWhitespace_def)

lemma separatorDigits_None_iff:
  "separatorDigits r = None \<longleftrightarrow>
     \<not> (case r of [] \<Rightarrow> False
        | c # cs \<Rightarrow> isDigit c \<or> (isUrlSeparator c \<and> (case cs of [] \<Rightarrow> False | e # _ \<Rightarrow> isDigit e)))"
  by (auto simp: separatorDigits_def Let_def takeWhile_eq_Nil_iff separator_not_digit
           split: list.splits)

lemma tokenDigits_None_iff: "tokenDigits token s = None \<longleftrightarrow> \<not> tokenThenDigit token s"
  by (simp add: tokenDigits_def tokenThenDigit_def separatorDigits_None_iff split: option.splits)

lemma urlWeekAt_None_iff: "urlWeekAt s = None \<longleftrightarrow> \<not> weekMarkerAt s"
  by (auto simp: urlWeekAt_def weekMarkerAt_def tokenDigits_None_iff [symmetric]
           split: option.splits)

lemma weekMarkerAt_Nil: "\<not> weekMarkerAt []"
  by (simp add: weekMarkerAt_def tokenThenDigit_def stripPrefixCI_def)

lemma list_ex_upt: "list_ex Q [0..<n] = (\<exists>i < n. Q i)"
  by (auto simp: list_ex_iff)

lemma list_ex_drop_Cons:
  "list_ex (\<lambda>i. P (drop i (c # cs))) [0..<length (c # cs)]
     = (P (c # cs) \<or> list_ex (\<lambda>i. P (drop i cs)) [0..<length cs])"
proof -
  have "(\<exists>i < Suc (length cs). P (drop i (c # cs))) = (P (c # cs) \<or> (\<exists>i < length cs. P (drop i cs)))"
    by (auto simp: less_Suc_eq_0_disj)
  then show ?thesis unfolding list_ex_upt by simp
qed

lemma urlWeekMatch_None_iff: "urlWeekMatch h = None \<longleftrightarrow> \<not> hasWeekMarker h"
proof (induction h)
  case Nil
  then show ?case by (simp add: hasWeekMarker_def)
next
  case (Cons c cs)
  have "hasWeekMarker (c # cs) = (weekMarkerAt (c # cs) \<or> hasWeekMarker cs)"
    unfolding hasWeekMarker_def by (rule list_ex_drop_Cons)
  then show ?case
    using Cons.IH urlWeekAt_None_iff [of "c # cs"]
    by (auto split: option.splits)
qed

lemma urlWeekMatch_nonempty: "urlWeekMatch h = Some ds \<Longrightarrow> h \<noteq> []"
  by auto

lemma candidateOf_url_week:
  assumes "href el = Some h" and "urlWeekMatch h = Some ds"
    and "includesStr (toLowerCase (linkText el)) (toLowerCase dayName)
         \<or> includesStr (toLowerCase h) (toLowerCase dayName)"
  shows "candidateOf bodyHtml dayName el
           = Some \<lparr>candHref = h, weekNum = Some (parseIntDigits ds)\<rparr>"
  using assms urlWeekMatch_nonempty [OF assms(2)]
  by (auto simp: candidateOf_def)

lemma stripPrefixCI_token: "toLowerCase tok = lit \<Longrightarrow> stripPrefixCI lit (tok @ r) = Some r"
  by (auto simp: stripPrefixCI_def toLowerCase_def)

lemma stripPrefixCI_first:
  "stripPrefixCI (l # lit) s = Some r \<Longrightarrow> s \<noteq> [] \<and> toLowerChar (hd s) = l"
  by (cases s) (auto simp: stripPrefixCI_def toLowerCase_def split: if_splits)

lemma stripPrefixCI_second:
  "stripPrefixCI (l1 # l2 # lit) (x # s) = Some r \<Longrightarrow> s \<noteq> [] \<and> toLowerChar (hd s) = l2"
  by (cases s) (auto simp: stripPrefixCI_def toLowerCase_def split: if_splits)

lemma digit_lower: "isDigit c \<Longrightarrow> toLowerChar c = c"
  by (auto simp: isDigit_def toLowerChar_def Let_def)

lemma space_lower: "isWhitespace c \<Longrightarrow> toLowerChar c = c"
  by (auto simp: isWhitespace_def toLowerChar_def Let_def)

lemma separator_lower: "isUrlSeparator c \<Longrightarrow> toLowerChar c = c"
  by (auto simp: isUrlSeparator_def isWhitespace_def toLowerChar_def Let_def)

lemma digit_not_letter_e: "isDigit c \<Longrightarrow> toLowerChar c \<noteq> CHR ''e''"
  using digit_lower [of c] by (auto simp: isDigit_def)

lemma separator_not_letter_e: "isUrlSeparator c \<Longrightarrow> toLowerChar c \<noteq> CHR ''e''"
  using separator_lower [of c] by (auto simp: isUrlSeparator_def isWhitespace_def)

lemma separatorDigits_run:
  assumes "sep = [] \<or> (\<exists>c. sep = [c] \<and> isUrlSeparator c)"
    and "ds \<noteq> []" and "\<forall>c \<in> set ds. isDigit c" and "rest = [] \<or> \<not> isDigit (hd rest)"
  shows "separatorDigits (sep @ ds @ rest) = Some ds"
proof -
  obtain d ds' where ds: "ds = d # ds'" using assms(2) by (cases ds) auto
  have d: "isDigit d" using assms(3) ds by simp
  have nsep: "\<not> isUrlSeparator d" using d separator_not_digit by blast
  have run: "takeWhile isDigit (ds @ rest) = ds"
    using assms(3,4) by (intro takeWhile_run) auto
  show ?thesis
  proof (cases "sep = []")
    case True
    have "separatorDigits (ds @ rest) = Some ds"
      using run nsep assms(2) unfolding separatorDigits_def Let_def ds by simp
    with True show ?thesis by simp
  next
    case False
    with assms(1) obtain c where c: "sep = [c]" "isUrlSeparator c" by auto
    show ?thesis
      using run c assms(2) unfolding separatorDigits_def Let_def by simp
  qed
qed

lemma urlWeekAt_marker:
  assumes tok: "toLowerCase tok = ''uge'' \<or> toLowerCase tok = ''week'' \<or> toLowerCase tok = ''w''"
    and sep: "sep = [] \<or> (\<exists>c. sep = [c] \<and> isUrlSeparator c)"
    and ds: "ds \<noteq> []" "\<forall>c \<in> set ds. isDigit c" and rest: "rest = [] \<or> \<not> isDigit (hd rest)"
  shows "urlWeekAt (tok @ sep @ ds @ rest) = Some ds"
proof -
  have sd: "separatorDigits (sep @ ds @ rest) = Some ds"
    using sep ds rest by (rule separatorDigits_run)
  have own: "tokenDigits (toLowerCase tok) (tok @ sep @ ds @ rest) = Some ds"
    using sd by (simp add: tokenDigits_def stripPrefixCI_token)
  consider (uge) "toLowerCase tok = ''uge''" | (week) "toLowerCase tok = ''week''"
    | (w) "toLowerCase tok = ''w''"
    using tok by blast
  then show ?thesis
  proof cases
    case uge
    with own show ?thesis by (simp add: urlWeekAt_def)
  next
    case week
    then obtain a t where t: "tok = a # t" "toLowerChar a = CHR ''w''"
      by (cases tok) (auto simp: toLowerCase_def)
    have "stripPrefixCI ''uge'' (tok @ sep @ ds @ rest) = None"
    proof (rule ccontr)
      assume "stripPrefixCI ''uge'' (tok @ sep @ ds @ rest) \<noteq> None"
      then obtain r where "stripPrefixCI ''uge'' (tok @ sep @ ds @ rest) = Some r" by auto
      from stripPrefixCI_first [OF this] t show False by simp
    qed
    then have "tokenDigits ''uge'' (tok @ sep @ ds @ rest) = None"
      by (simp add: tokenDigits_def)
    with own week show ?thesis by (simp add: urlWeekAt_def)
  next
    case w
    then obtain a where t: "tok = [a]" "toLowerChar a = CHR ''w''"
      by (cases tok) (auto simp: toLowerCase_def)
    have nu: "stripPrefixCI ''uge'' (tok @ sep @ ds @ rest) = None"
    proof (rule ccontr)
      assume "stripPrefixCI ''uge'' (tok @ sep @ ds @ rest) \<noteq> None"
      then obtain r where "stripPrefixCI ''uge'' (tok @ sep @ ds @ rest) = Some r" by auto
      from stripPrefixCI_first [OF this] t show False by simp
    qed
    have nweek: "stripPrefixCI ''week'' (tok @ sep @ ds @ rest) = None"
    proof (rule ccontr)
      assume "stripPrefixCI ''week'' (tok @ sep @ ds @ rest) \<noteq> None"
      then obtain r where "stripPrefixCI ''week'' (a # (sep @ ds @ rest)) = Some r"
        using t by auto
      from stripPrefixCI_second [OF this]
      have e: "toLowerChar (hd (sep @ ds @ rest)) = CHR ''e''" by simp
      obtain d ds' where d: "ds = d # ds'" using ds(1) by (cases ds) auto
      show False
      proof (cases "sep = []")
        case True
        with e d have "toLowerChar d = CHR ''e''" by simp
        moreover have "isDigit d" using ds(2) d by simp
        ultimately show False using digit_not_letter_e by blast
      next
        case False
        with sep obtain c where c: "sep = [c]" "isUrlSeparator c" by auto
        with e have "toLowerChar c = CHR ''e''" by simp
        with c(2) show False using separator_not_letter_e by blast
      qed
    qed
    from nu nweek have "tokenDigits ''uge'' (tok @ sep @ ds @ rest) = None"
      "tokenDigits ''week'' (tok @ sep @ ds @ rest) = None"
      by (simp_all add: tokenDigits_def)
    with own w show ?thesis by (simp add: urlWeekAt_def)
  qed
qed

lemma urlWeekMatch_skip:
  "(\<forall>i < length pre. \<not> weekMarkerAt (drop i (pre @ s))) \<Longrightarrow> urlWeekMatch (pre @ s) = urlWeekMatch s"
proof (induction pre)
  case Nil
  then show ?case by simp
next
  case (Cons c pre)
  from Cons.prems have "\<not> weekMarkerAt (c # pre @ s)" by force
  then have head: "urlWeekAt (c # pre @ s) = None" by (simp add: urlWeekAt_None_iff)
  have "\<forall>i < length pre. \<not> weekMarkerAt (drop i (pre @ s))"
  proof (intro allI impI)
    fix i assume "i < length pre"
    then have "\<not> weekMarkerAt (drop (Suc i) ((c # pre) @ s))"
      using Cons.prems by (metis Suc_less_eq length_Cons)
    then show "\<not> weekMarkerAt (drop i (pre @ s))" by simp
  qed
  then have "urlWeekMatch (pre @ s) = urlWeekMatch s" by (rule Cons.IH)
  with head show ?case by simp
qed

lemma urlWeekMatch_leftmost:
  assumes "\<forall>i < length pre. \<not> weekMarkerAt (drop i (pre @ tok @ sep @ ds @ rest))"
    and "toLowerCase tok = ''uge'' \<or> toLowerCase tok = ''week'' \<or> toLowerCase tok = ''w''"
    and "sep = [] \<or> (\<exists>c. sep = [c] \<and> isUrlSeparator c)"
    and "ds \<noteq> []" and "\<forall>c \<in> set ds. isDigit c" and "rest = [] \<or> \<not> isDigit (hd rest)"
  shows "urlWeekMatch (pre @ tok @ sep @ ds @ rest) = Some ds"
proof -
  have "tok \<noteq> []" using assms(2) by (auto simp: toLowerCase_def)
  then obtain a t where t: "tok = a # t" by (cases tok) auto
  have "urlWeekMatch (tok @ sep @ ds @ rest) = Some ds"
    using urlWeekAt_marker [OF assms(2-6)] unfolding t by simp
  with urlWeekMatch_skip [OF assms(1)] show ?thesis by simp
qed

lemma weekInNameLink_candidate:
  "candidateOf bodyHtml ''mandag'' (weekInNameLink markup)
     = Some \<lparr>candHref = ''menu-uge3-mandag.pdf'', weekNum = Some (Num 3)\<rparr>"
proof -
  have m: "urlWeekMatch ''menu-uge3-mandag.pdf'' = Some ''3''" by code_simp
  have i: "includesStr (toLowerCase ''Mandag'') (toLowerCase ''mandag'')" by code_simp
  have p: "parseIntDigits ''3'' = Num 3" by code_simp
  have "candidateOf bodyHtml ''mandag'' (weekInNameLink markup)
     = Some \<lparr>candHref = ''menu-uge3-mandag.pdf'', weekNum = Some (parseIntDigits ''3'')\<rparr>"
  proof (rule candidateOf_url_week)
    show "href (weekInNameLink markup) = Some ''menu-uge3-mandag.pdf''"
      by (simp add: weekInNameLink_def)
    show "urlWeekMatch ''menu-uge3-mandag.pdf'' = Some ''3''" by (rule m)
    show "includesStr (toLowerCase (linkText (weekInNameLink markup))) (toLowerCase ''mandag'')
        \<or> includesStr (toLowerCase ''menu-uge3-mandag.pdf'') (toLowerCase ''mandag'')"
      using i by (simp add: weekInNameLink_def)
  qed
  with p show ?thesis by simp
qed

lemma url_week_first:
  assumes "anchors doc = before @ el # others"
    and "href el = Some h" and "suffix ''.pdf'' h" and "urlWeekMatch h = Some ds"
    and "includesStr (toLowerCase (linkText el)) (toLowerCase dayName)
         \<or> includesStr (toLowerCase h) (toLowerCase dayName)"
    and "parseIntDigits ds = Num weekNumber"
    and "\<forall>c \<in> set (candidatesOf (doc\<lparr>anchors := before\<rparr>) html dayName).
           weekNum c \<noteq> Some (Num weekNumber)"
  shows "findMenuPdfUrl doc html weekNumber dayName = Some h"
proof -
  have c: "candidateOf (bodyHtmlOf doc html) dayName el
      = Some \<lparr>candHref = h, weekNum = Some (parseIntDigits ds)\<rparr>"
    using assms(2,4,5) by (rule candidateOf_url_week)
  have "findMenuPdfUrl doc html weekNumber dayName
      = Some (candHref \<lparr>candHref = h, weekNum = Some (parseIntDigits ds)\<rparr>)"
    using assms(1,2,3) c _ assms(7) by (rule findMenuPdfUrl_first) (simp add: assms(6))
  then show ?thesis by simp
qed

lemma weekInNameLink_first:
  assumes "anchors doc = before @ weekInNameLink markup # others"
    and "\<forall>c \<in> set (candidatesOf (doc\<lparr>anchors := before\<rparr>) html ''mandag'').
           weekNum c \<noteq> Some (Num 3)"
  shows "findMenuPdfUrl doc html 3 ''mandag'' = Some ''menu-uge3-mandag.pdf''"
proof -
  have s: "suffix ''.pdf'' ''menu-uge3-mandag.pdf''" by code_simp
  have h: "href (weekInNameLink markup) = Some ''menu-uge3-mandag.pdf''"
    by (simp add: weekInNameLink_def)
  have "findMenuPdfUrl doc html 3 ''mandag''
      = Some (candHref \<lparr>candHref = ''menu-uge3-mandag.pdf'', weekNum = Some (Num 3)\<rparr>)"
    using assms(1) h s weekInNameLink_candidate _ assms(2)
    by (rule findMenuPdfUrl_first) simp
  then show ?thesis by simp
qed

text \<open>
  Claim C2, as stated, does not hold of every page with the link
  \<open>menu-uge3-mandag.pdf\<close>: the resolver returns the first candidate of the target week,
  and a heading can make an earlier link one. On the page below, the link \<open>mon.pdf\<close>
  stands under the heading of week 3 and before the link with the week in its name, and
  week 3 and \<open>mandag\<close> resolve to \<open>mon.pdf\<close>.
\<close>

theorem C2_counterexample:
  "includesStr earlierLinkHtml ''<a href=\"menu-uge3-mandag.pdf\">Mandag</a>''
   \<and> candidatesOf earlierLinkDoc earlierLinkHtml ''mandag''
       = [\<lparr>candHref = ''mon.pdf'', weekNum = Some (Num 3)\<rparr>,
          \<lparr>candHref = ''menu-uge3-mandag.pdf'', weekNum = Some (Num 3)\<rparr>]
   \<and> findMenuPdfUrl earlierLinkDoc earlierLinkHtml 3 ''mandag'' = Some ''mon.pdf''"
  by code_simp

text \<open>
  Claim C2, amended. A link for the day whose \<open>href\<close> holds a week marker (one of
  \<open>uge\<close>, \<open>week\<close>, \<open>w\<close> in any case, at most one separator out of underscore, hyphen
  and white space, then digits) gets the week number parsed from the \<open>href\<close>: the
  pattern of the code matches exactly the links with such a marker, the number is the
  whole run of digits of the marker that starts first, read as a number of the language
  (the decimal value when that is below \<open>2^53\<close>), and the candidate is the same
  whatever the markup of the body and of the link, so nothing is inferred from the
  position. Such a PDF link is the result for its week when no link before it is a
  candidate of that week; what comes behind it does not matter. So week 3 and \<open>mandag\<close>
  resolve to the link \<open>menu-uge3-mandag.pdf\<close> on every page on which no earlier link
  is a candidate of week 3, whatever the headings say and whatever follows.
\<close>

theorem C2_week_in_href:
  "(urlWeekMatch h = None \<longleftrightarrow> \<not> hasWeekMarker h)
   \<and> ((\<forall>i < length pre. \<not> weekMarkerAt (drop i (pre @ tok @ sep @ ds @ rest)))
        \<and> (toLowerCase tok = ''uge'' \<or> toLowerCase tok = ''week'' \<or> toLowerCase tok = ''w'')
        \<and> (sep = [] \<or> (\<exists>c. sep = [c] \<and> isUrlSeparator c))
        \<and> ds \<noteq> [] \<and> (\<forall>c \<in> set ds. isDigit c) \<and> (rest = [] \<or> \<not> isDigit (hd rest)) \<longrightarrow>
       urlWeekMatch (pre @ tok @ sep @ ds @ rest) = Some ds)
   \<and> (href el = Some h' \<and> urlWeekMatch h' = Some ds'
        \<and> (includesStr (toLowerCase (linkText el)) (toLowerCase dayName)
            \<or> includesStr (toLowerCase h') (toLowerCase dayName)) \<longrightarrow>
       (\<forall>bodyHtml markup.
          candidateOf bodyHtml dayName (el\<lparr>outerHtml := markup\<rparr>)
            = Some \<lparr>candHref = h', weekNum = Some (parseIntDigits ds')\<rparr>))
   \<and> (parseDigits ds' < 2 ^ 53 \<longrightarrow> parseIntDigits ds' = Num (int (parseDigits ds')))
   \<and> (weekNumber < 2 ^ 53 \<longrightarrow>
       (parseIntDigits ds' = Num weekNumber \<longleftrightarrow> int (parseDigits ds') = weekNumber))
   \<and> (anchors doc = before @ el # others
        \<and> href el = Some h' \<and> suffix ''.pdf'' h' \<and> urlWeekMatch h' = Some ds'
        \<and> (includesStr (toLowerCase (linkText el)) (toLowerCase dayName)
            \<or> includesStr (toLowerCase h') (toLowerCase dayName))
        \<and> parseIntDigits ds' = Num weekNumber
        \<and> (\<forall>c \<in> set (candidatesOf (doc\<lparr>anchors := before\<rparr>) html dayName).
              weekNum c \<noteq> Some (Num weekNumber)) \<longrightarrow>
       findMenuPdfUrl doc html weekNumber dayName = Some h')
   \<and> (anchors doc' = before' @ weekInNameLink markup' # others'
        \<and> (\<forall>c \<in> set (candidatesOf (doc'\<lparr>anchors := before'\<rparr>) html' ''mandag'').
              weekNum c \<noteq> Some (Num 3)) \<longrightarrow>
       findMenuPdfUrl doc' html' 3 ''mandag'' = Some ''menu-uge3-mandag.pdf'')"
proof -
  have a: "urlWeekMatch (pre @ tok @ sep @ ds @ rest) = Some ds"
    if "\<forall>i < length pre. \<not> weekMarkerAt (drop i (pre @ tok @ sep @ ds @ rest))"
      and "toLowerCase tok = ''uge'' \<or> toLowerCase tok = ''week'' \<or> toLowerCase tok = ''w''"
      and "sep = [] \<or> (\<exists>c. sep = [c] \<and> isUrlSeparator c)"
      and "ds \<noteq> []" and "\<forall>c \<in> set ds. isDigit c" and "rest = [] \<or> \<not> isDigit (hd rest)"
    using that by (rule urlWeekMatch_leftmost)
  have b: "candidateOf bodyHtml dayName (el\<lparr>outerHtml := markup\<rparr>)
            = Some \<lparr>candHref = h', weekNum = Some (parseIntDigits ds')\<rparr>"
    if "href el = Some h'" and "urlWeekMatch h' = Some ds'"
      and "includesStr (toLowerCase (linkText el)) (toLowerCase dayName)
            \<or> includesStr (toLowerCase h') (toLowerCase dayName)"
    for bodyHtml markup
    using that by (intro candidateOf_url_week) simp_all
  have c: "parseIntDigits ds' = Num (int (parseDigits ds'))" if "parseDigits ds' < 2 ^ 53"
    using that by (rule parseIntDigits_exact)
  have d: "(parseIntDigits ds' = Num weekNumber) = (int (parseDigits ds') = weekNumber)"
    if "weekNumber < 2 ^ 53"
    using that by (rule parseIntDigits_eq_iff)
  have e: "findMenuPdfUrl doc html weekNumber dayName = Some h'"
    if "anchors doc = before @ el # others"
      and "href el = Some h'" and "suffix ''.pdf'' h'" and "urlWeekMatch h' = Some ds'"
      and "includesStr (toLowerCase (linkText el)) (toLowerCase dayName)
            \<or> includesStr (toLowerCase h') (toLowerCase dayName)"
      and "parseIntDigits ds' = Num weekNumber"
      and "\<forall>c \<in> set (candidatesOf (doc\<lparr>anchors := before\<rparr>) html dayName).
              weekNum c \<noteq> Some (Num weekNumber)"
    using that by (rule url_week_first)
  have f: "findMenuPdfUrl doc' html' 3 ''mandag'' = Some ''menu-uge3-mandag.pdf''"
    if "anchors doc' = before' @ weekInNameLink markup' # others'"
      and "\<forall>c \<in> set (candidatesOf (doc'\<lparr>anchors := before'\<rparr>) html' ''mandag'').
              weekNum c \<noteq> Some (Num 3)"
    using that by (rule weekInNameLink_first)
  show ?thesis
    using urlWeekMatch_None_iff [of h] a b c d e f by (simp only: simp_thms) blast
qed

theorem C2_week_in_href_witness:
  "urlWeekMatch (''menu-'' @ ''Uge'' @ ''_'' @ ''12'' @ ''.pdf'') = Some ''12''
   \<and> parseIntDigits ''12'' = Num 12
   \<and> findMenuPdfUrl
        \<lparr>bodyInner = Some ''<h2>Uge 7</h2><a href=\"mon.pdf\">Mandag</a><a href=\"menu-uge3-mandag.pdf\">Mandag</a>'',
         anchors = [\<lparr>href = Some ''mon.pdf'', linkText = ''Mandag'',
                     outerHtml = ''<a href=\"mon.pdf\">Mandag</a>''\<rparr>,
                    weekInNameLink ''<a href=\"menu-uge3-mandag.pdf\">Mandag</a>'']\<rparr>
        ''<h2>Uge 7</h2><a href=\"mon.pdf\">Mandag</a><a href=\"menu-uge3-mandag.pdf\">Mandag</a>''
        3 ''mandag''
       = Some ''menu-uge3-mandag.pdf''"
proof -
  define page where "page
    = ''<h2>Uge 7</h2><a href=\"mon.pdf\">Mandag</a><a href=\"menu-uge3-mandag.pdf\">Mandag</a>''"
  define first where "first
    = \<lparr>href = Some ''mon.pdf'', linkText = ''Mandag'',
       outerHtml = ''<a href=\"mon.pdf\">Mandag</a>''\<rparr>"
  define link where "link = ''<a href=\"menu-uge3-mandag.pdf\">Mandag</a>''"
  note T = C2_week_in_href [where pre = "''menu-''" and tok = "''Uge''" and sep = "''_''"
      and ds = "''12''" and rest = "''.pdf''" and ds' = "''12''"
      and doc' = "\<lparr>bodyInner = Some page, anchors = [first, weekInNameLink link]\<rparr>"
      and before' = "[first]" and markup' = link and others' = "[]" and html' = page]
  have pre: "\<forall>i < length ''menu-''.
      \<not> weekMarkerAt (drop i (''menu-'' @ ''Uge'' @ ''_'' @ ''12'' @ ''.pdf''))"
    unfolding all_less_list by code_simp
  have tok: "toLowerCase ''Uge'' = ''uge'' \<or> toLowerCase ''Uge'' = ''week''
      \<or> toLowerCase ''Uge'' = ''w''"
    by code_simp
  have sep: "''_'' = [] \<or> (\<exists>c. ''_'' = [c] \<and> isUrlSeparator c)"
    by (simp add: isUrlSeparator_def)
  have ds: "''12'' \<noteq> [] \<and> (\<forall>c \<in> set ''12''. isDigit c) \<and> (''.pdf'' = [] \<or> \<not> isDigit (hd ''.pdf''))"
    by (simp add: isDigit_def)
  have A: "urlWeekMatch (''menu-'' @ ''Uge'' @ ''_'' @ ''12'' @ ''.pdf'') = Some ''12''"
    using T [THEN conjunct2, THEN conjunct1] pre tok sep ds by blast
  have small: "parseDigits ''12'' < 2 ^ 53" by (simp add: parseDigits_def digitValue_def)
  have v: "int (parseDigits ''12'') = 12" by code_simp
  have B: "parseIntDigits ''12'' = Num 12"
    using T [THEN conjunct2, THEN conjunct2, THEN conjunct2, THEN conjunct1, THEN mp, OF small] v
    by (simp only:)
  have cs: "candidatesOf (\<lparr>bodyInner = Some page, anchors = [first, weekInNameLink link]\<rparr>
        \<lparr>anchors := [first]\<rparr>) page ''mandag''
      = [\<lparr>candHref = ''mon.pdf'', weekNum = Some (Num 7)\<rparr>]"
    unfolding page_def first_def link_def by code_simp
  have no: "\<forall>c \<in> set (candidatesOf (\<lparr>bodyInner = Some page,
        anchors = [first, weekInNameLink link]\<rparr>\<lparr>anchors := [first]\<rparr>) page ''mandag'').
      weekNum c \<noteq> Some (Num 3)"
    unfolding cs by simp
  have an: "anchors \<lparr>bodyInner = Some page, anchors = [first, weekInNameLink link]\<rparr>
      = [first] @ weekInNameLink link # []"
    by simp
  have C: "findMenuPdfUrl \<lparr>bodyInner = Some page, anchors = [first, weekInNameLink link]\<rparr>
      page 3 ''mandag'' = Some ''menu-uge3-mandag.pdf''"
    using T [THEN conjunct2, THEN conjunct2, THEN conjunct2, THEN conjunct2, THEN conjunct2,
        THEN conjunct2, THEN mp, OF conjI, OF an no] .
  from A B C show ?thesis unfolding page_def first_def link_def by (simp only: simp_thms)
qed

section \<open>The week from the position\<close>

lemma stripPrefixCI_Some:
  "stripPrefixCI lit s = Some r \<Longrightarrow> \<exists>tok. s = tok @ r \<and> toLowerCase tok = lit"
proof -
  assume a: "stripPrefixCI lit s = Some r"
  then have "toLowerCase (take (length lit) s) = lit" and "r = drop (length lit) s"
    by (auto simp: stripPrefixCI_def split: if_splits)
  then have "s = take (length lit) s @ r \<and> toLowerCase (take (length lit) s) = lit" by simp
  then show ?thesis by blast
qed

lemma spaceDigits_sound:
  assumes "spaceDigits r = Some (ds, n)"
  shows "\<exists>ws rest. r = ws @ ds @ rest \<and> ws \<noteq> [] \<and> (\<forall>c \<in> set ws. isWhitespace c)
            \<and> ds \<noteq> [] \<and> (\<forall>c \<in> set ds. isDigit c) \<and> n = length ws + length ds
            \<and> (rest = [] \<or> \<not> isDigit (hd rest))"
proof -
  define ws where "ws = takeWhile isWhitespace r"
  define r2 where "r2 = dropWhile isWhitespace r"
  define rest where "rest = dropWhile isDigit r2"
  from assms have ds: "ds = takeWhile isDigit r2" and ne: "ws \<noteq> []" "ds \<noteq> []"
    and n: "n = length ws + length ds"
    by (auto simp: spaceDigits_def Let_def ws_def r2_def split: if_splits)
  have "r = ws @ r2" by (simp add: ws_def r2_def)
  also have "r2 = ds @ rest" by (simp add: ds rest_def)
  finally have r: "r = ws @ ds @ rest" .
  have c1: "\<forall>c \<in> set ws. isWhitespace c" by (auto simp: ws_def dest: set_takeWhileD)
  have c2: "\<forall>c \<in> set ds. isDigit c" by (auto simp: ds dest: set_takeWhileD)
  have c3: "rest = [] \<or> \<not> isDigit (hd rest)"
    unfolding rest_def using hd_dropWhile [of isDigit r2] by blast
  show ?thesis using r ne c1 c2 c3 n by blast
qed

lemma spaceDigits_complete:
  assumes "ws \<noteq> []" and "\<forall>c \<in> set ws. isWhitespace c" and "ds \<noteq> []"
    and "\<forall>c \<in> set ds. isDigit c" and "rest = [] \<or> \<not> isDigit (hd rest)"
  shows "spaceDigits (ws @ ds @ rest) = Some (ds, length ws + length ds)"
proof -
  have h: "\<not> isWhitespace (hd ds)" using assms(3,4) digit_not_space by (cases ds) auto
  have t: "takeWhile isWhitespace (ws @ ds @ rest) = ws"
    using assms(2,3) h by (intro takeWhile_run) auto
  have d: "dropWhile isWhitespace (ws @ ds @ rest) = ds @ rest"
    using assms(2,3) h by (intro dropWhile_run) auto
  have t2: "takeWhile isDigit (ds @ rest) = ds"
    using assms(4,5) by (intro takeWhile_run) auto
  show ?thesis unfolding spaceDigits_def Let_def t d t2 using assms(1,3) by simp
qed

lemma weekHeadingAt_sound:
  assumes "weekHeadingAt s = Some (ds, m)"
  shows "\<exists>tok ws rest. s = tok @ ws @ ds @ rest
            \<and> (toLowerCase tok = ''uge'' \<or> toLowerCase tok = ''week'')
            \<and> ws \<noteq> [] \<and> (\<forall>c \<in> set ws. isWhitespace c)
            \<and> ds \<noteq> [] \<and> (\<forall>c \<in> set ds. isDigit c)
            \<and> m = length tok + length ws + length ds
            \<and> (rest = [] \<or> \<not> isDigit (hd rest))"
proof -
  from assms consider
    (uge) r n where "stripPrefixCI ''uge'' s = Some r" "spaceDigits r = Some (ds, n)" "m = 3 + n"
  | (week) r n where "stripPrefixCI ''week'' s = Some r" "spaceDigits r = Some (ds, n)" "m = 4 + n"
    by (auto simp: weekHeadingAt_def split: option.splits)
  then show ?thesis
  proof cases
    case uge
    from stripPrefixCI_Some [OF uge(1)] obtain tok where
      tok: "s = tok @ r" "toLowerCase tok = ''uge''" by blast
    have "length tok = length (toLowerCase tok)" by (simp add: toLowerCase_def)
    then have len: "length tok = 3" unfolding tok(2) by simp
    from spaceDigits_sound [OF uge(2)] obtain ws rest where
      r: "r = ws @ ds @ rest" "ws \<noteq> []" "\<forall>c \<in> set ws. isWhitespace c" "ds \<noteq> []"
        "\<forall>c \<in> set ds. isDigit c" "n = length ws + length ds" "rest = [] \<or> \<not> isDigit (hd rest)"
      by blast
    have "s = tok @ ws @ ds @ rest" using tok(1) r(1) by simp
    moreover have "m = length tok + length ws + length ds" using uge(3) r(6) len by simp
    ultimately show ?thesis using tok(2) r(2,3,4,5,7) by blast
  next
    case week
    from stripPrefixCI_Some [OF week(1)] obtain tok where
      tok: "s = tok @ r" "toLowerCase tok = ''week''" by blast
    have "length tok = length (toLowerCase tok)" by (simp add: toLowerCase_def)
    then have len: "length tok = 4" unfolding tok(2) by simp
    from spaceDigits_sound [OF week(2)] obtain ws rest where
      r: "r = ws @ ds @ rest" "ws \<noteq> []" "\<forall>c \<in> set ws. isWhitespace c" "ds \<noteq> []"
        "\<forall>c \<in> set ds. isDigit c" "n = length ws + length ds" "rest = [] \<or> \<not> isDigit (hd rest)"
      by blast
    have "s = tok @ ws @ ds @ rest" using tok(1) r(1) by simp
    moreover have "m = length tok + length ws + length ds" using week(3) r(6) len by simp
    ultimately show ?thesis using tok(2) r(2,3,4,5,7) by blast
  qed
qed

lemma weekHeadingAt_first:
  assumes "weekHeadingAt s \<noteq> None"
  shows "s \<noteq> [] \<and> startsHeading (hd s)"
proof -
  from assms have "stripPrefixCI ''uge'' s \<noteq> None \<or> stripPrefixCI ''week'' s \<noteq> None"
    by (auto simp: weekHeadingAt_def split: option.splits)
  then show ?thesis
    using stripPrefixCI_first [of "CHR ''u''" "''ge''" s]
      stripPrefixCI_first [of "CHR ''w''" "''eek''" s]
    by (auto simp: startsHeading_def)
qed

lemma digit_no_start: "isDigit c \<Longrightarrow> \<not> startsHeading c"
  using digit_lower [of c] by (auto simp: startsHeading_def isDigit_def)

lemma space_no_start: "isWhitespace c \<Longrightarrow> \<not> startsHeading c"
  using space_lower [of c] by (auto simp: startsHeading_def isWhitespace_def)

lemma token_tail_no_start:
  assumes "toLowerCase tok = ''uge'' \<or> toLowerCase tok = ''week''"
  shows "tok \<noteq> [] \<and> (\<forall>c \<in> set (tl tok). \<not> startsHeading c)"
proof -
  from assms obtain a t where t: "tok = a # t"
    and l: "map toLowerChar t = ''ge'' \<or> map toLowerChar t = ''eek''"
    by (cases tok) (auto simp: toLowerCase_def)
  have "\<forall>c \<in> set t. toLowerChar c \<in> set (map toLowerChar t)" by simp
  with l have "\<forall>c \<in> set t. toLowerChar c \<in> {CHR ''g'', CHR ''e'', CHR ''k''}"
    by (metis (no_types, lifting) insert_iff list.simps(15) empty_set)
  then have "\<forall>c \<in> set t. \<not> startsHeading c"
    by (auto simp: startsHeading_def)
  with t show ?thesis by simp
qed

lemma weekHeadingAt_no_overlap:
  assumes m: "weekHeadingAt s = Some (ds, m)" and k: "0 < k" "k < m"
  shows "weekHeadingAt (drop k s) = None"
proof (rule ccontr)
  assume "weekHeadingAt (drop k s) \<noteq> None"
  then have st: "drop k s \<noteq> []" "startsHeading (hd (drop k s))"
    using weekHeadingAt_first by blast+
  from weekHeadingAt_sound [OF m] obtain tok ws rest where
    s: "s = tok @ ws @ ds @ rest"
    and tok: "toLowerCase tok = ''uge'' \<or> toLowerCase tok = ''week''"
    and ws: "\<forall>c \<in> set ws. isWhitespace c" and ds: "\<forall>c \<in> set ds. isDigit c"
    and len: "m = length tok + length ws + length ds"
    by blast
  define inner where "inner = tok @ ws @ ds"
  have tt: "tok \<noteq> []" "\<forall>c \<in> set (tl tok). \<not> startsHeading c"
    using token_tail_no_start [OF tok] by blast+
  have linner: "length inner = m" by (simp add: inner_def len)
  have "hd (drop k s) = s ! k" using st(1) by (simp add: hd_drop_conv_nth)
  also have "s ! k = (inner @ rest) ! k" using s by (simp add: inner_def)
  also have "(inner @ rest) ! k = inner ! k" using k(2) linner by (simp add: nth_append)
  also have "inner ! k = tl inner ! (k - 1)"
    using k linner by (cases inner) (auto simp: nth_Cons')
  finally have "hd (drop k s) \<in> set (tl inner)"
    using k linner by (metis One_nat_def Suc_pred length_tl less_diff_conv nth_mem plus_1_eq_Suc add.commute)
  moreover have "tl inner = tl tok @ ws @ ds" using tt(1) by (simp add: inner_def)
  ultimately have "hd (drop k s) \<in> set (tl tok) \<union> set ws \<union> set ds" by auto
  then have "\<not> startsHeading (hd (drop k s))"
    using tt(2) ws ds space_no_start digit_no_start by blast
  with st(2) show False by simp
qed

lemma weekHeadingAt_length: "weekHeadingAt s = Some (ds, m) \<Longrightarrow> 0 < m \<and> m \<le> length s"
  using weekHeadingAt_sound [of s ds m] by auto

lemma lastOccurrence_skip:
  "(\<forall>j < n. weekHeadingAt (drop j cs) = None) \<Longrightarrow> lastOccurrence cs = lastOccurrence (drop n cs)"
proof (induction n arbitrary: cs)
  case 0
  then show ?case by simp
next
  case (Suc n)
  show ?case
  proof (cases cs)
    case Nil
    then show ?thesis by simp
  next
    case (Cons x xs)
    from Suc.prems have "weekHeadingAt (drop 0 cs) = None" by blast
    then have head: "weekHeadingAt (x # xs) = None" using Cons by simp
    have "\<forall>j < n. weekHeadingAt (drop j xs) = None"
    proof (intro allI impI)
      fix j assume "j < n"
      then have "weekHeadingAt (drop (Suc j) cs) = None" using Suc.prems by simp
      then show "weekHeadingAt (drop j xs) = None" using Cons by simp
    qed
    then have "lastOccurrence xs = lastOccurrence (drop n xs)" by (rule Suc.IH)
    then show ?thesis using head Cons by (simp split: option.splits)
  qed
qed

lemma lastOccurrence_weekMatches:
  "lastOccurrence s = (if weekMatches s = [] then None else Some (last (weekMatches s)))"
proof (induction s rule: length_induct)
  case (1 s)
  show ?case
  proof (cases s)
    case Nil
    then show ?thesis by simp
  next
    case (Cons c cs)
    show ?thesis
    proof (cases "weekHeadingAt (c # cs)")
      case None
      have "length cs < length s" using Cons by simp
      then have "lastOccurrence cs = (if weekMatches cs = [] then None else Some (last (weekMatches cs)))"
        using 1 by blast
      then show ?thesis using None Cons by (simp split: option.splits)
    next
      case (Some p)
      obtain ds m where p: "p = (ds, m)" by (cases p)
      from Some p weekHeadingAt_length [of "c # cs" ds m] obtain n where
        n: "m = Suc n" "n \<le> length cs"
        by (cases m) auto
      have wm: "weekMatches (c # cs) = ds # weekMatches (drop n cs)"
        using Some p n by simp
      have "\<forall>j < n. weekHeadingAt (drop j cs) = None"
      proof (intro allI impI)
        fix j assume "j < n"
        then have "weekHeadingAt (drop (Suc j) (c # cs)) = None"
          using weekHeadingAt_no_overlap [of "c # cs" ds m "Suc j"] Some p n by simp
        then show "weekHeadingAt (drop j cs) = None" by simp
      qed
      then have skip: "lastOccurrence cs = lastOccurrence (drop n cs)"
        by (rule lastOccurrence_skip)
      have "length (drop n cs) < length s" using Cons by simp
      then have ih: "lastOccurrence (drop n cs)
          = (if weekMatches (drop n cs) = [] then None else Some (last (weekMatches (drop n cs))))"
        using 1 by blast
      have "lastOccurrence (c # cs)
          = (case lastOccurrence (drop n cs) of Some x \<Rightarrow> Some x | None \<Rightarrow> Some ds)"
        using skip Some p by (simp split: option.splits)
      then show ?thesis using ih wm Cons by (simp split: if_splits)
    qed
  qed
qed

lemma lastWeekNum_lastOccurrence:
  "lastWeekNum s = map_option parseIntDigits (lastOccurrence s)"
  by (simp add: lastWeekNum_def Let_def lastOccurrence_weekMatches)

lemma weekHeadingAt_complete:
  assumes tok: "toLowerCase tok = ''uge'' \<or> toLowerCase tok = ''week''"
    and rest: "ws \<noteq> []" "\<forall>c \<in> set ws. isWhitespace c" "ds \<noteq> []" "\<forall>c \<in> set ds. isDigit c"
      "rest = [] \<or> \<not> isDigit (hd rest)"
  shows "weekHeadingAt (tok @ ws @ ds @ rest) = Some (ds, length tok + length ws + length ds)"
proof -
  have sd: "spaceDigits (ws @ ds @ rest) = Some (ds, length ws + length ds)"
    using rest by (rule spaceDigits_complete)
  have len: "length tok = length (toLowerCase tok)" by (simp add: toLowerCase_def)
  from tok show ?thesis
  proof
    assume u: "toLowerCase tok = ''uge''"
    then have "stripPrefixCI ''uge'' (tok @ ws @ ds @ rest) = Some (ws @ ds @ rest)"
      by (rule stripPrefixCI_token)
    moreover have "length tok = 3" using len unfolding u by simp
    ultimately show ?thesis using sd by (simp add: weekHeadingAt_def)
  next
    assume w: "toLowerCase tok = ''week''"
    then have s: "stripPrefixCI ''week'' (tok @ ws @ ds @ rest) = Some (ws @ ds @ rest)"
      by (rule stripPrefixCI_token)
    from w obtain a t where t: "tok = a # t" "toLowerChar a = CHR ''w''"
      by (cases tok) (auto simp: toLowerCase_def)
    have n: "stripPrefixCI ''uge'' (tok @ ws @ ds @ rest) = None"
    proof (rule ccontr)
      assume "stripPrefixCI ''uge'' (tok @ ws @ ds @ rest) \<noteq> None"
      then obtain r where "stripPrefixCI ''uge'' (tok @ ws @ ds @ rest) = Some r" by auto
      from stripPrefixCI_first [OF this] t show False by simp
    qed
    have "length tok = 4" using len unfolding w by simp
    then show ?thesis using sd s n by (simp add: weekHeadingAt_def)
  qed
qed

lemma indexOfFrom_Some:
  "indexOfFrom i needle s = Some p \<Longrightarrow>
     i \<le> p \<and> p - i \<le> length s \<and> prefix needle (drop (p - i) s)
     \<and> (\<forall>q < p - i. \<not> prefix needle (drop q s))"
proof (induction s arbitrary: i)
  case Nil
  then show ?case by (auto split: if_splits)
next
  case (Cons c cs)
  show ?case
  proof (cases "prefix needle (c # cs)")
    case True
    with Cons.prems show ?thesis by simp
  next
    case False
    with Cons.prems have rec: "indexOfFrom (Suc i) needle cs = Some p" by simp
    from Cons.IH [OF rec] have ih: "Suc i \<le> p" "p - Suc i \<le> length cs"
      "prefix needle (drop (p - Suc i) cs)" "\<forall>q < p - Suc i. \<not> prefix needle (drop q cs)"
      by blast+
    have d: "p - i = Suc (p - Suc i)" using ih(1) by simp
    have "\<forall>q < p - i. \<not> prefix needle (drop q (c # cs))"
    proof (intro allI impI)
      fix q assume q: "q < p - i"
      show "\<not> prefix needle (drop q (c # cs))"
      proof (cases q)
        case 0
        with False show ?thesis by simp
      next
        case (Suc q')
        with q d have "q' < p - Suc i" by simp
        with ih(4) Suc show ?thesis by simp
      qed
    qed
    then show ?thesis using ih d by simp
  qed
qed

lemma indexOfFrom_None:
  "indexOfFrom i needle s = None \<Longrightarrow> \<forall>q \<le> length s. \<not> prefix needle (drop q s)"
proof (induction s arbitrary: i)
  case Nil
  then show ?case by (auto split: if_splits)
next
  case (Cons c cs)
  then have f: "\<not> prefix needle (c # cs)" and rec: "indexOfFrom (Suc i) needle cs = None"
    by (auto split: if_splits)
  from Cons.IH [OF rec] have ih: "\<forall>q \<le> length cs. \<not> prefix needle (drop q cs)" .
  show ?case
  proof (intro allI impI)
    fix q assume q: "q \<le> length (c # cs)"
    show "\<not> prefix needle (drop q (c # cs))"
    proof (cases q)
      case 0
      with f show ?thesis by simp
    next
      case (Suc q')
      with q ih show ?thesis by simp
    qed
  qed
qed

lemma indexOf_Some:
  "indexOf s needle = Some p \<Longrightarrow>
     p \<le> length s \<and> prefix needle (drop p s) \<and> (\<forall>q < p. \<not> prefix needle (drop q s))"
  using indexOfFrom_Some [of 0 needle s p] by (simp add: indexOf_def)

lemma indexOf_None:
  "indexOf s needle = None \<Longrightarrow> \<forall>q \<le> length s. \<not> prefix needle (drop q s)"
  unfolding indexOf_def by (rule indexOfFrom_None)

lemma candidateOf_positional:
  assumes "href el = Some h" and "h \<noteq> []" and "urlWeekMatch h = None"
    and "includesStr (toLowerCase (linkText el)) (toLowerCase dayName)
         \<or> includesStr (toLowerCase h) (toLowerCase dayName)"
  shows "candidateOf bodyHtml dayName el
     = Some \<lparr>candHref = h,
             weekNum = (case indexOf bodyHtml (outerHtml el) of
                          None \<Rightarrow> None
                        | Some pos \<Rightarrow>
                            map_option parseIntDigits (lastOccurrence (take pos bodyHtml)))\<rparr>"
  using assms by (auto simp: candidateOf_def lastWeekNum_lastOccurrence split: option.splits)

lemma bodyHtmlOf_body: "bodyInner doc = Some b \<Longrightarrow> b \<noteq> [] \<Longrightarrow> bodyHtmlOf doc html = b"
  by (simp add: bodyHtmlOf_def)

lemma bodyHtmlOf_page:
  "bodyInner doc = None \<or> bodyInner doc = Some [] \<Longrightarrow> bodyHtmlOf doc html = html"
  by (auto simp: bodyHtmlOf_def)

lemma suffix_pdf_nonempty: "suffix ''.pdf'' h \<Longrightarrow> h \<noteq> []"
  by auto

lemma positional_first:
  assumes "anchors doc = before @ el # others"
    and "bodyInner doc = Some b" and "b \<noteq> []"
    and "href el = Some h" and "suffix ''.pdf'' h" and "urlWeekMatch h = None"
    and "includesStr (toLowerCase (linkText el)) (toLowerCase dayName)
         \<or> includesStr (toLowerCase h) (toLowerCase dayName)"
    and "indexOf b (outerHtml el) = Some pos"
    and "lastOccurrence (take pos b) = Some wds"
    and "parseIntDigits wds = Num weekNumber"
    and "\<forall>c \<in> set (candidatesOf (doc\<lparr>anchors := before\<rparr>) html dayName).
           weekNum c \<noteq> Some (Num weekNumber)"
  shows "findMenuPdfUrl doc html weekNumber dayName = Some h"
proof -
  have body: "bodyHtmlOf doc html = b" using assms(2,3) by (rule bodyHtmlOf_body)
  have "candidateOf b dayName el
     = Some \<lparr>candHref = h,
             weekNum = (case indexOf b (outerHtml el) of
                          None \<Rightarrow> None
                        | Some pos \<Rightarrow> map_option parseIntDigits (lastOccurrence (take pos b)))\<rparr>"
    using assms(4) suffix_pdf_nonempty [OF assms(5)] assms(6,7) by (rule candidateOf_positional)
  then have c: "candidateOf (bodyHtmlOf doc html) dayName el
      = Some \<lparr>candHref = h, weekNum = Some (Num weekNumber)\<rparr>"
    unfolding body by (simp add: assms(8,9,10))
  have "findMenuPdfUrl doc html weekNumber dayName
      = Some (candHref \<lparr>candHref = h, weekNum = Some (Num weekNumber)\<rparr>)"
    using assms(1,4,5) c _ assms(11) by (rule findMenuPdfUrl_first) simp
  then show ?thesis by simp
qed

lemma candidatesOf_body:
  "bodyInner doc = Some b \<Longrightarrow> b \<noteq> [] \<Longrightarrow>
   candidatesOf doc html dayName = List.map_filter (candidateOf b dayName) (pdfAnchors doc)"
  by (simp add: candidatesOf_def bodyHtmlOf_body)

lemma candidatesOf_page:
  "bodyInner doc = None \<or> bodyInner doc = Some [] \<Longrightarrow>
   candidatesOf doc html dayName = List.map_filter (candidateOf html dayName) (pdfAnchors doc)"
  by (simp add: candidatesOf_def bodyHtmlOf_page)

lemma lastWeekNum_beyond_exact:
  "lastWeekNum ''Uge 9007199254740993'' = Some (Num 9007199254740992)"
proof -
  have "lastOccurrence ''Uge 9007199254740993'' = Some ''9007199254740993''" by code_simp
  then show ?thesis by (simp only: lastWeekNum_lastOccurrence option.map parseIntDigits_beyond_exact)
qed

lemma twoWeeks_candidates:
  "candidatesOf twoWeeksDoc twoWeeksHtml ''mandag''
     = [\<lparr>candHref = ''mon.pdf'', weekNum = Some (Num 2)\<rparr>,
        \<lparr>candHref = ''mon2.pdf'', weekNum = Some (Num 3)\<rparr>]"
  by code_simp

lemma twoWeeks_week3: "findMenuPdfUrl twoWeeksDoc twoWeeksHtml 3 ''mandag'' = Some ''mon2.pdf''"
  by (simp add: findMenuPdfUrl_def twoWeeks_candidates)

lemma titledPage_candidates:
  "candidatesOf titledPageDoc titledPageHtml ''mandag''
     = [\<lparr>candHref = ''mon.pdf'', weekNum = None\<rparr>]"
  by code_simp

lemma titledPage_raw:
  "candidateOf titledPageHtml ''mandag'' (hd (anchors titledPageDoc))
     = Some \<lparr>candHref = ''mon.pdf'', weekNum = Some (Num 5)\<rparr>"
  by code_simp

lemma titledPage_week7:
  "findMenuPdfUrl titledPageDoc titledPageHtml 7 ''mandag'' = Some ''mon.pdf''"
  by (simp add: findMenuPdfUrl_def titledPage_candidates)

text \<open>
  Claim C1. For a link for the day whose \<open>href\<close> holds no week marker, the resolver
  looks for the serialized markup of the link in the markup of the body; \<open>indexOf\<close>
  gives the first place where it stands. When it stands nowhere, the candidate is
  recorded with an unknown week, and nothing fails. Otherwise the week is the number of
  the week heading that starts last in the markup before that place, and unknown when
  there is none. A week heading is \<open>uge\<close> or \<open>week\<close> in any case, white space, and
  digits: the pattern of the code matches exactly these, with the whole run of digits, and
  the last match that \<open>matchAll\<close> finds is the heading that starts last, since two
  headings cannot overlap. The number is the decimal value of the digits as a number of
  the language: exact below \<open>2^53\<close>, rounded beyond (\<open>Uge 9007199254740993\<close> gives
  9007199254740992).

  The markup searched is the serialized body of the parsed page when that is not empty,
  and the page as fetched otherwise; so a week in the title of the page, outside the
  body, is not seen. In the resolver such a PDF link is the result for the week
  inferred for it when no link before it is a candidate of that week. For the listing
  with \<open>mon.pdf\<close> under \<open>Uge 2\<close> and \<open>mon2.pdf\<close> under \<open>Uge 3\<close>, week 3 resolves to
  \<open>mon2.pdf\<close>.
\<close>

theorem C1_positional_inference:
  "(href el = Some h \<and> h \<noteq> [] \<and> urlWeekMatch h = None
      \<and> (includesStr (toLowerCase (linkText el)) (toLowerCase dayName)
          \<or> includesStr (toLowerCase h) (toLowerCase dayName)) \<longrightarrow>
      candidateOf bodyHtml dayName el
        = Some \<lparr>candHref = h,
                weekNum = (case indexOf bodyHtml (outerHtml el) of
                             None \<Rightarrow> None
                           | Some pos \<Rightarrow>
                               map_option parseIntDigits
                                 (lastOccurrence (take pos bodyHtml)))\<rparr>)
   \<and> (indexOf bodyHtml markup = Some p \<longrightarrow>
        p \<le> length bodyHtml \<and> prefix markup (drop p bodyHtml)
        \<and> (\<forall>q < p. \<not> prefix markup (drop q bodyHtml)))
   \<and> (indexOf bodyHtml markup = None \<longrightarrow>
        (\<forall>q \<le> length bodyHtml. \<not> prefix markup (drop q bodyHtml)))
   \<and> ((toLowerCase tok = ''uge'' \<or> toLowerCase tok = ''week'')
        \<and> ws \<noteq> [] \<and> (\<forall>c \<in> set ws. isWhitespace c) \<and> ds \<noteq> [] \<and> (\<forall>c \<in> set ds. isDigit c)
        \<and> (rest = [] \<or> \<not> isDigit (hd rest)) \<longrightarrow>
        weekHeadingAt (tok @ ws @ ds @ rest) = Some (ds, length tok + length ws + length ds))
   \<and> (weekHeadingAt s = Some (ds', m) \<longrightarrow>
        (\<exists>tok ws rest. s = tok @ ws @ ds' @ rest
            \<and> (toLowerCase tok = ''uge'' \<or> toLowerCase tok = ''week'')
            \<and> ws \<noteq> [] \<and> (\<forall>c \<in> set ws. isWhitespace c)
            \<and> ds' \<noteq> [] \<and> (\<forall>c \<in> set ds'. isDigit c)
            \<and> m = length tok + length ws + length ds'
            \<and> (rest = [] \<or> \<not> isDigit (hd rest))))
   \<and> lastWeekNum s' = map_option parseIntDigits (lastOccurrence s')
   \<and> (parseDigits wds < 2 ^ 53 \<longrightarrow> parseIntDigits wds = Num (int (parseDigits wds)))
   \<and> lastWeekNum ''Uge 9007199254740993'' = Some (Num 9007199254740992)
   \<and> (bodyInner doc = Some b \<and> b \<noteq> [] \<longrightarrow>
        candidatesOf doc page dayName
          = List.map_filter (candidateOf b dayName) (pdfAnchors doc))
   \<and> (bodyInner doc = None \<or> bodyInner doc = Some [] \<longrightarrow>
        candidatesOf doc page dayName
          = List.map_filter (candidateOf page dayName) (pdfAnchors doc))
   \<and> (anchors doc = before @ el # others
        \<and> bodyInner doc = Some b \<and> b \<noteq> []
        \<and> href el = Some h \<and> suffix ''.pdf'' h \<and> urlWeekMatch h = None
        \<and> (includesStr (toLowerCase (linkText el)) (toLowerCase dayName)
            \<or> includesStr (toLowerCase h) (toLowerCase dayName))
        \<and> indexOf b (outerHtml el) = Some pos
        \<and> lastOccurrence (take pos b) = Some wds
        \<and> parseIntDigits wds = Num weekNumber
        \<and> (\<forall>c \<in> set (candidatesOf (doc\<lparr>anchors := before\<rparr>) page dayName).
              weekNum c \<noteq> Some (Num weekNumber)) \<longrightarrow>
        findMenuPdfUrl doc page weekNumber dayName = Some h)
   \<and> candidatesOf twoWeeksDoc twoWeeksHtml ''mandag''
       = [\<lparr>candHref = ''mon.pdf'', weekNum = Some (Num 2)\<rparr>,
          \<lparr>candHref = ''mon2.pdf'', weekNum = Some (Num 3)\<rparr>]
   \<and> findMenuPdfUrl twoWeeksDoc twoWeeksHtml 3 ''mandag'' = Some ''mon2.pdf''
   \<and> candidatesOf titledPageDoc titledPageHtml ''mandag''
       = [\<lparr>candHref = ''mon.pdf'', weekNum = None\<rparr>]
   \<and> candidateOf titledPageHtml ''mandag'' (hd (anchors titledPageDoc))
       = Some \<lparr>candHref = ''mon.pdf'', weekNum = Some (Num 5)\<rparr>
   \<and> findMenuPdfUrl titledPageDoc titledPageHtml 7 ''mandag'' = Some ''mon.pdf''"
proof -
  have c1: "href el = Some h \<and> h \<noteq> [] \<and> urlWeekMatch h = None
      \<and> (includesStr (toLowerCase (linkText el)) (toLowerCase dayName)
          \<or> includesStr (toLowerCase h) (toLowerCase dayName)) \<longrightarrow>
      candidateOf bodyHtml dayName el
        = Some \<lparr>candHref = h,
                weekNum = (case indexOf bodyHtml (outerHtml el) of
                             None \<Rightarrow> None
                           | Some pos \<Rightarrow>
                               map_option parseIntDigits
                                 (lastOccurrence (take pos bodyHtml)))\<rparr>"
  proof
    assume "href el = Some h \<and> h \<noteq> [] \<and> urlWeekMatch h = None
      \<and> (includesStr (toLowerCase (linkText el)) (toLowerCase dayName)
          \<or> includesStr (toLowerCase h) (toLowerCase dayName))"
    then show "candidateOf bodyHtml dayName el
        = Some \<lparr>candHref = h,
                weekNum = (case indexOf bodyHtml (outerHtml el) of
                             None \<Rightarrow> None
                           | Some pos \<Rightarrow>
                               map_option parseIntDigits
                                 (lastOccurrence (take pos bodyHtml)))\<rparr>"
      by (intro candidateOf_positional) simp_all
  qed
  have c2: "indexOf bodyHtml markup = Some p \<longrightarrow>
        p \<le> length bodyHtml \<and> prefix markup (drop p bodyHtml)
        \<and> (\<forall>q < p. \<not> prefix markup (drop q bodyHtml))"
    by (rule impI) (rule indexOf_Some)
  have c3: "indexOf bodyHtml markup = None \<longrightarrow>
        (\<forall>q \<le> length bodyHtml. \<not> prefix markup (drop q bodyHtml))"
    by (rule impI) (rule indexOf_None)
  have c4: "(toLowerCase tok = ''uge'' \<or> toLowerCase tok = ''week'')
        \<and> ws \<noteq> [] \<and> (\<forall>c \<in> set ws. isWhitespace c) \<and> ds \<noteq> [] \<and> (\<forall>c \<in> set ds. isDigit c)
        \<and> (rest = [] \<or> \<not> isDigit (hd rest)) \<longrightarrow>
        weekHeadingAt (tok @ ws @ ds @ rest) = Some (ds, length tok + length ws + length ds)"
  proof
    assume "(toLowerCase tok = ''uge'' \<or> toLowerCase tok = ''week'')
        \<and> ws \<noteq> [] \<and> (\<forall>c \<in> set ws. isWhitespace c) \<and> ds \<noteq> [] \<and> (\<forall>c \<in> set ds. isDigit c)
        \<and> (rest = [] \<or> \<not> isDigit (hd rest))"
    then show "weekHeadingAt (tok @ ws @ ds @ rest)
        = Some (ds, length tok + length ws + length ds)"
      by (intro weekHeadingAt_complete) simp_all
  qed
  have c5: "weekHeadingAt s = Some (ds', m) \<longrightarrow>
        (\<exists>tok ws rest. s = tok @ ws @ ds' @ rest
            \<and> (toLowerCase tok = ''uge'' \<or> toLowerCase tok = ''week'')
            \<and> ws \<noteq> [] \<and> (\<forall>c \<in> set ws. isWhitespace c)
            \<and> ds' \<noteq> [] \<and> (\<forall>c \<in> set ds'. isDigit c)
            \<and> m = length tok + length ws + length ds'
            \<and> (rest = [] \<or> \<not> isDigit (hd rest)))"
    using weekHeadingAt_sound [of s ds' m] by blast
  have c6: "lastWeekNum s' = map_option parseIntDigits (lastOccurrence s')"
    by (rule lastWeekNum_lastOccurrence)
  have c7: "parseDigits wds < 2 ^ 53 \<longrightarrow> parseIntDigits wds = Num (int (parseDigits wds))"
    by (rule impI) (rule parseIntDigits_exact)
  have c9: "bodyInner doc = Some b \<and> b \<noteq> [] \<longrightarrow>
        candidatesOf doc page dayName
          = List.map_filter (candidateOf b dayName) (pdfAnchors doc)"
  proof
    assume "bodyInner doc = Some b \<and> b \<noteq> []"
    then show "candidatesOf doc page dayName
          = List.map_filter (candidateOf b dayName) (pdfAnchors doc)"
      by (intro candidatesOf_body) simp_all
  qed
  have c10: "bodyInner doc = None \<or> bodyInner doc = Some [] \<longrightarrow>
        candidatesOf doc page dayName
          = List.map_filter (candidateOf page dayName) (pdfAnchors doc)"
    by (rule impI) (rule candidatesOf_page)
  have c11: "anchors doc = before @ el # others
        \<and> bodyInner doc = Some b \<and> b \<noteq> []
        \<and> href el = Some h \<and> suffix ''.pdf'' h \<and> urlWeekMatch h = None
        \<and> (includesStr (toLowerCase (linkText el)) (toLowerCase dayName)
            \<or> includesStr (toLowerCase h) (toLowerCase dayName))
        \<and> indexOf b (outerHtml el) = Some pos
        \<and> lastOccurrence (take pos b) = Some wds
        \<and> parseIntDigits wds = Num weekNumber
        \<and> (\<forall>c \<in> set (candidatesOf (doc\<lparr>anchors := before\<rparr>) page dayName).
              weekNum c \<noteq> Some (Num weekNumber)) \<longrightarrow>
        findMenuPdfUrl doc page weekNumber dayName = Some h"
  proof
    assume h: "anchors doc = before @ el # others
        \<and> bodyInner doc = Some b \<and> b \<noteq> []
        \<and> href el = Some h \<and> suffix ''.pdf'' h \<and> urlWeekMatch h = None
        \<and> (includesStr (toLowerCase (linkText el)) (toLowerCase dayName)
            \<or> includesStr (toLowerCase h) (toLowerCase dayName))
        \<and> indexOf b (outerHtml el) = Some pos
        \<and> lastOccurrence (take pos b) = Some wds
        \<and> parseIntDigits wds = Num weekNumber
        \<and> (\<forall>c \<in> set (candidatesOf (doc\<lparr>anchors := before\<rparr>) page dayName).
              weekNum c \<noteq> Some (Num weekNumber))"
    from h have "anchors doc = before @ el # others"
      and "bodyInner doc = Some b" and "b \<noteq> []"
      and "href el = Some h" and "suffix ''.pdf'' h" and "urlWeekMatch h = None"
      and "includesStr (toLowerCase (linkText el)) (toLowerCase dayName)
           \<or> includesStr (toLowerCase h) (toLowerCase dayName)"
      and "indexOf b (outerHtml el) = Some pos"
      and "lastOccurrence (take pos b) = Some wds"
      and "parseIntDigits wds = Num weekNumber"
      and "\<forall>c \<in> set (candidatesOf (doc\<lparr>anchors := before\<rparr>) page dayName).
             weekNum c \<noteq> Some (Num weekNumber)"
      by simp_all
    then show "findMenuPdfUrl doc page weekNumber dayName = Some h"
      by (rule positional_first)
  qed
  show ?thesis
    by (intro conjI)
      (fact c1 c2 c3 c4 c5 c6 c7 lastWeekNum_beyond_exact c9 c10 c11
         twoWeeks_candidates twoWeeks_week3 titledPage_candidates titledPage_raw
         titledPage_week7)+
qed

theorem C1_positional_inference_witness:
  "candidateOf twoWeeksHtml ''mandag''
     \<lparr>href = Some ''mon2.pdf'', linkText = ''Mandag'',
      outerHtml = ''<a href=\"mon2.pdf\">Mandag</a>''\<rparr>
     = Some \<lparr>candHref = ''mon2.pdf'', weekNum = Some (Num 3)\<rparr>
   \<and> candidateOf twoWeeksHtml ''mandag''
     \<lparr>href = Some ''mon2.pdf'', linkText = ''Mandag'',
      outerHtml = ''<a href=\"mon2.pdf\" >Mandag</a>''\<rparr>
     = Some \<lparr>candHref = ''mon2.pdf'', weekNum = None\<rparr>
   \<and> findMenuPdfUrl twoWeeksDoc twoWeeksHtml 3 ''mandag'' = Some ''mon2.pdf''"
proof -
  define first where "first
    = \<lparr>href = Some ''mon.pdf'', linkText = ''Mandag'',
       outerHtml = ''<a href=\"mon.pdf\">Mandag</a>''\<rparr>"
  define second where "second
    = \<lparr>href = Some ''mon2.pdf'', linkText = ''Mandag'',
       outerHtml = ''<a href=\"mon2.pdf\">Mandag</a>''\<rparr>"
  have hyp: "href \<lparr>href = Some ''mon2.pdf'', linkText = ''Mandag'', outerHtml = markup\<rparr>
        = Some ''mon2.pdf'' \<and> ''mon2.pdf'' \<noteq> [] \<and> urlWeekMatch ''mon2.pdf'' = None
      \<and> (includesStr (toLowerCase (linkText
              \<lparr>href = Some ''mon2.pdf'', linkText = ''Mandag'', outerHtml = markup\<rparr>))
            (toLowerCase ''mandag'')
          \<or> includesStr (toLowerCase ''mon2.pdf'') (toLowerCase ''mandag''))" for markup
  proof -
    have m: "urlWeekMatch ''mon2.pdf'' = None" by code_simp
    have i: "includesStr (toLowerCase ''Mandag'') (toLowerCase ''mandag'')" by code_simp
    show ?thesis using m i by simp
  qed
  have w1: "(case indexOf twoWeeksHtml ''<a href=\"mon2.pdf\">Mandag</a>'' of
               None \<Rightarrow> None
             | Some pos \<Rightarrow>
                 map_option parseIntDigits (lastOccurrence (take pos twoWeeksHtml)))
            = Some (Num 3)"
    by code_simp
  have w2: "(case indexOf twoWeeksHtml ''<a href=\"mon2.pdf\" >Mandag</a>'' of
               None \<Rightarrow> None
             | Some pos \<Rightarrow>
                 map_option parseIntDigits (lastOccurrence (take pos twoWeeksHtml)))
            = None"
    by code_simp
  have A: "candidateOf twoWeeksHtml ''mandag''
     \<lparr>href = Some ''mon2.pdf'', linkText = ''Mandag'',
      outerHtml = ''<a href=\"mon2.pdf\">Mandag</a>''\<rparr>
     = Some \<lparr>candHref = ''mon2.pdf'', weekNum = Some (Num 3)\<rparr>"
    using C1_positional_inference [where h = "''mon2.pdf''" and dayName = "''mandag''"
        and bodyHtml = twoWeeksHtml
        and el = "\<lparr>href = Some ''mon2.pdf'', linkText = ''Mandag'',
                   outerHtml = ''<a href=\"mon2.pdf\">Mandag</a>''\<rparr>",
        THEN conjunct1, THEN mp, OF hyp] w1
    by simp
  have B: "candidateOf twoWeeksHtml ''mandag''
     \<lparr>href = Some ''mon2.pdf'', linkText = ''Mandag'',
      outerHtml = ''<a href=\"mon2.pdf\" >Mandag</a>''\<rparr>
     = Some \<lparr>candHref = ''mon2.pdf'', weekNum = None\<rparr>"
    using C1_positional_inference [where h = "''mon2.pdf''" and dayName = "''mandag''"
        and bodyHtml = twoWeeksHtml
        and el = "\<lparr>href = Some ''mon2.pdf'', linkText = ''Mandag'',
                   outerHtml = ''<a href=\"mon2.pdf\" >Mandag</a>''\<rparr>",
        THEN conjunct1, THEN mp, OF hyp] w2
    by simp
  have an: "anchors twoWeeksDoc = [first] @ second # []"
    by (simp add: twoWeeksDoc_def first_def second_def)
  have body: "bodyInner twoWeeksDoc = Some twoWeeksHtml" "twoWeeksHtml \<noteq> []"
    by (simp_all add: twoWeeksDoc_def twoWeeksHtml_def)
  have el: "href second = Some ''mon2.pdf''" "suffix ''.pdf'' ''mon2.pdf''"
      "urlWeekMatch ''mon2.pdf'' = None"
      "includesStr (toLowerCase (linkText second)) (toLowerCase ''mandag'')
       \<or> includesStr (toLowerCase ''mon2.pdf'') (toLowerCase ''mandag'')"
    unfolding second_def by code_simp+
  have pos: "indexOf twoWeeksHtml (outerHtml second) = Some 56"
    unfolding second_def by code_simp
  have last: "lastOccurrence (take 56 twoWeeksHtml) = Some ''3''" by code_simp
  have num: "parseIntDigits ''3'' = Num 3" by code_simp
  have cs: "candidatesOf (twoWeeksDoc\<lparr>anchors := [first]\<rparr>) twoWeeksHtml ''mandag''
      = [\<lparr>candHref = ''mon.pdf'', weekNum = Some (Num 2)\<rparr>]"
    unfolding first_def by code_simp
  have no: "\<forall>c \<in> set (candidatesOf (twoWeeksDoc\<lparr>anchors := [first]\<rparr>) twoWeeksHtml ''mandag'').
      weekNum c \<noteq> Some (Num 3)"
    unfolding cs by simp
  note T = C1_positional_inference [where doc = twoWeeksDoc and page = twoWeeksHtml
      and b = twoWeeksHtml and before = "[first]" and el = second and others = "[]"
      and h = "''mon2.pdf''" and dayName = "''mandag''" and pos = 56 and wds = "''3''"
      and weekNumber = 3]
  have C: "findMenuPdfUrl twoWeeksDoc twoWeeksHtml 3 ''mandag'' = Some ''mon2.pdf''"
    using T [THEN conjunct2, THEN conjunct2, THEN conjunct2, THEN conjunct2, THEN conjunct2,
        THEN conjunct2, THEN conjunct2, THEN conjunct2, THEN conjunct2, THEN conjunct2,
        THEN conjunct1]
      an body el pos last num no
    by (simp only: simp_thms)
  from A B C show ?thesis by (simp only: simp_thms)
qed

section \<open>The week number\<close>

lemma DayFromYear_step:
  "DayFromYear y + 364 \<le> DayFromYear (y + 1) \<and> DayFromYear (y + 1) \<le> DayFromYear y + 367"
proof -
  have "(y - 1969) div 4 \<le> (y + 1 - 1969) div 4"
    and "(y + 1 - 1969) div 4 \<le> (y - 1969) div 4 + 1"
    and "(y - 1901) div 100 \<le> (y + 1 - 1901) div 100"
    and "(y + 1 - 1901) div 100 \<le> (y - 1901) div 100 + 1"
    and "(y - 1601) div 400 \<le> (y + 1 - 1601) div 400"
    and "(y + 1 - 1601) div 400 \<le> (y - 1601) div 400 + 1"
    by linarith+
  then show ?thesis unfolding DayFromYear_def by (simp add: algebra_simps)
qed

lemma DayFromYear_less: "DayFromYear y < DayFromYear (y + 1)"
  using DayFromYear_step [of y] by simp

lemma DayFromYear_mono_nat: "DayFromYear y \<le> DayFromYear (y + int n)"
proof (induction n)
  case 0
  then show ?case by simp
next
  case (Suc n)
  have "DayFromYear (y + int n) < DayFromYear (y + int n + 1)" by (rule DayFromYear_less)
  moreover have "y + int (Suc n) = y + int n + 1" by simp
  ultimately show ?case using Suc by (simp only:)
qed

lemma DayFromYear_mono: "y \<le> y' \<Longrightarrow> DayFromYear y \<le> DayFromYear y'"
  using DayFromYear_mono_nat [of y "nat (y' - y)"] by simp

lemma yearDown_le: "DayFromYear (yearDown y d) \<le> d"
proof (induction y d rule: yearDown.induct)
  case (1 y d)
  show ?case
  proof (cases "d < DayFromYear y")
    case True
    then have "yearDown y d = yearDown (y - 1) d" by (subst yearDown.simps) simp
    with 1 True show ?thesis by simp
  next
    case False
    then have "yearDown y d = y" by (subst yearDown.simps) simp
    with False show ?thesis by simp
  qed
qed

lemma yearUp_spec:
  "DayFromYear y \<le> d \<Longrightarrow>
   DayFromYear (yearUp y d) \<le> d \<and> d < DayFromYear (yearUp y d + 1)"
proof (induction y d rule: yearUp.induct)
  case (1 y d)
  show ?case
  proof (cases "DayFromYear (y + 1) \<le> d")
    case True
    then have "yearUp y d = yearUp (y + 1) d" by (subst yearUp.simps) simp
    with 1 True show ?thesis by simp
  next
    case False
    then have "yearUp y d = y" by (subst yearUp.simps) simp
    with False 1 show ?thesis by simp
  qed
qed

lemma YearFromDay_spec:
  "DayFromYear (YearFromDay d) \<le> d \<and> d < DayFromYear (YearFromDay d + 1)"
  unfolding YearFromDay_def by (rule yearUp_spec) (rule yearDown_le)

lemma YearFromDay_unique:
  assumes "DayFromYear y \<le> d" and "d < DayFromYear (y + 1)"
  shows "YearFromDay d = y"
proof (rule ccontr)
  assume ne: "YearFromDay d \<noteq> y"
  note sp = YearFromDay_spec [of d]
  show False
  proof (cases "YearFromDay d < y")
    case True
    then have "DayFromYear (YearFromDay d + 1) \<le> DayFromYear y"
      by (intro DayFromYear_mono) simp
    with sp assms show False by simp
  next
    case False
    with ne have "DayFromYear (y + 1) \<le> DayFromYear (YearFromDay d)"
      by (intro DayFromYear_mono) simp
    with sp assms show False by simp
  qed
qed

lemma YearFromDay_DayFromYear: "YearFromDay (DayFromYear y) = y"
  by (rule YearFromDay_unique) (simp_all add: DayFromYear_less)

lemma TimeWithinDay_range: "0 \<le> TimeWithinDay t \<and> TimeWithinDay t < msPerDay"
  by (simp add: TimeWithinDay_def msPerDay_def)

lemma Day_MakeDate: "0 \<le> tod \<Longrightarrow> tod < msPerDay \<Longrightarrow> Day (MakeDate d tod) = d"
  by (simp add: Day_def MakeDate_def msPerDay_def div_pos_pos_trivial)

lemma TimeWithinDay_MakeDate:
  "0 \<le> tod \<Longrightarrow> tod < msPerDay \<Longrightarrow> TimeWithinDay (MakeDate d tod) = tod"
  by (simp add: TimeWithinDay_def MakeDate_def msPerDay_def)

lemma MakeDay_own_month:
  "MakeDay (YearFromTime t) (MonthFromTime t) (DateFromTime t + k) = Day t + k"
  by (simp add: MakeDay_def DateFromTime_def DayWithinYear_def InLeapYear_def)

lemma MakeDay_january: "MakeDay y 0 dt = DayFromYear y + dt - 1"
  by (simp add: MakeDay_def monthStart_def)

lemma fixedZone_sel: "localTime (fixedZone c) t = t + c" "utcTime (fixedZone c) t = t - c"
  by (simp_all add: fixedZone_def)

lemma setDate_shift:
  "setDate z t (getDate z t + k)
     = utcTime z (MakeDate (Day (localTime z t) + k) (TimeWithinDay (localTime z t)))"
  by (simp add: setDate_def getDate_def Let_def MakeDay_own_month)

lemma mondayOf_week: "mondayOf d \<le> d \<and> d < mondayOf d + 7 \<and> (mondayOf d + 4) mod 7 = 1"
  unfolding mondayOf_def by presburger

lemma thursdayOf_mod: "thursdayOf d mod 7 = 0"
  unfolding thursdayOf_def mondayOf_def by presburger

lemma firstThursdayOfYear_spec:
  "DayFromYear y \<le> firstThursdayOfYear y \<and> firstThursdayOfYear y < DayFromYear y + 7
   \<and> firstThursdayOfYear y mod 7 = 0"
  unfolding firstThursdayOfYear_def by presburger

lemma targetThursday_fixed:
  "targetThursday (fixedZone c) t
     = MakeDate (thursdayOf (Day (t + c))) (TimeWithinDay (t + c)) - c"
proof -
  have k: "getDate (fixedZone c) t - (getDay (fixedZone c) t + 6) mod 7 + 3
        = getDate (fixedZone c) t + (3 - (Day (t + c) + 3) mod 7)"
    unfolding getDay_def WeekDay_def fixedZone_sel by presburger
  have "Day (t + c) + (3 - (Day (t + c) + 3) mod 7) = thursdayOf (Day (t + c))"
    by (simp add: thursdayOf_def mondayOf_def)
  then show ?thesis
    unfolding targetThursday_def Let_def k setDate_shift fixedZone_sel by simp
qed

lemma yearFirstThursday_fixed:
  "yearFirstThursday (fixedZone c) t
     = MakeDate (firstThursdayOfYear (YearFromDay (thursdayOf (Day (t + c)))))
         (TimeWithinDay (t + c)) - c"
proof -
  define tod where "tod = TimeWithinDay (t + c)"
  define y where "y = YearFromDay (thursdayOf (Day (t + c)))"
  define J where "J = DayFromYear y"
  have tod: "0 \<le> tod" "tod < msPerDay" using TimeWithinDay_range [of "t + c"] by (simp_all add: tod_def)
  have th: "localTime (fixedZone c) (targetThursday (fixedZone c) t)
      = MakeDate (thursdayOf (Day (t + c))) tod"
    by (simp add: targetThursday_fixed fixedZone_sel tod_def)
  have jan1: "setMonth (fixedZone c) (targetThursday (fixedZone c) t) 0 1 = MakeDate J tod - c"
    unfolding setMonth_def Let_def th
    by (simp add: YearFromTime_def Day_MakeDate TimeWithinDay_MakeDate tod MakeDay_january
        y_def J_def fixedZone_sel)
  have l1: "localTime (fixedZone c) (MakeDate J tod - c) = MakeDate J tod"
    by (simp add: fixedZone_sel)
  have wd: "getDay (fixedZone c) (MakeDate J tod - c) = (J + 4) mod 7"
    unfolding getDay_def l1 WeekDay_def by (simp add: Day_MakeDate tod)
  have yj: "YearFromTime (MakeDate J tod) = y"
    by (simp add: YearFromTime_def Day_MakeDate tod J_def YearFromDay_DayFromYear)
  have again: "setMonth (fixedZone c) (MakeDate J tod - c) 0 (1 + ((4 - (J + 4) mod 7 + 7) mod 7))
      = MakeDate (J + (4 - (J + 4) mod 7 + 7) mod 7) tod - c"
    unfolding setMonth_def Let_def l1 yj
    by (simp add: TimeWithinDay_MakeDate tod MakeDay_january J_def fixedZone_sel)
  have shift: "(J + 4) mod 7 \<noteq> 4 \<Longrightarrow> J + (4 - (J + 4) mod 7 + 7) mod 7 = firstThursdayOfYear y"
    unfolding firstThursdayOfYear_def J_def [symmetric] by presburger
  have stay: "(J + 4) mod 7 = 4 \<Longrightarrow> J = firstThursdayOfYear y"
    unfolding firstThursdayOfYear_def J_def [symmetric] by presburger
  show ?thesis
    unfolding yearFirstThursday_def Let_def jan1 wd again
    using shift stay by (auto simp: tod_def y_def)
qed

lemma week_difference:
  "targetThursday (fixedZone c) t - yearFirstThursday (fixedZone c) t
     = 604800000 * (isoWeek (Day (t + c)) - 1)"
proof -
  define TD where "TD = thursdayOf (Day (t + c))"
  define FD where "FD = firstThursdayOfYear (YearFromDay TD)"
  have "TD mod 7 = 0" unfolding TD_def by (rule thursdayOf_mod)
  moreover have "FD mod 7 = 0" unfolding FD_def using firstThursdayOfYear_spec by blast
  ultimately have "(TD - FD) mod 7 = 0" by presburger
  then have q: "TD - FD = 7 * ((TD - FD) div 7)" by presburger
  have "targetThursday (fixedZone c) t - yearFirstThursday (fixedZone c) t
      = (TD - FD) * msPerDay"
    unfolding targetThursday_fixed yearFirstThursday_fixed MakeDate_def TD_def FD_def
    by (simp add: algebra_simps)
  also have "\<dots> = 7 * ((TD - FD) div 7) * msPerDay" using q by simp
  also have "\<dots> = 604800000 * ((TD - FD) div 7)" by (simp add: msPerDay_def)
  finally show ?thesis
    by (simp add: isoWeek_def isoYear_def TD_def FD_def)
qed

lemma getWeekNumber_dates:
  "getWeekNumber z date
     = 1 + ceilDiv (targetThursday z date - yearFirstThursday z date) 604800000"
  by (simp add: getWeekNumber_def targetThursday_def yearFirstThursday_def Let_def)

lemma getWeekNumber_fixed: "getWeekNumber (fixedZone c) t = isoWeek (Day (t + c))"
  unfolding getWeekNumber_dates week_difference ceilDiv_def by simp

lemma isoYear_spec:
  "DayFromYear (isoYear d) \<le> thursdayOf d \<and> thursdayOf d < DayFromYear (isoYear d + 1)"
  unfolding isoYear_def by (rule YearFromDay_spec)

lemma isoWeek_range: "1 \<le> isoWeek d \<and> isoWeek d \<le> 53"
proof -
  define TD where "TD = thursdayOf d"
  define y where "y = isoYear d"
  define FD where "FD = firstThursdayOfYear y"
  have y: "DayFromYear y \<le> TD" "TD < DayFromYear (y + 1)"
    using isoYear_spec [of d] by (simp_all add: TD_def y_def)
  have f: "DayFromYear y \<le> FD" "FD < DayFromYear y + 7" "FD mod 7 = 0"
    using firstThursdayOfYear_spec [of y] by (simp_all add: FD_def)
  have t: "TD mod 7 = 0" unfolding TD_def by (rule thursdayOf_mod)
  have lo: "FD \<le> TD" using y(1) f t by presburger
  have "DayFromYear (y + 1) \<le> DayFromYear y + 367" using DayFromYear_step [of y] by simp
  with y(2) f(1) have hi: "TD - FD \<le> 366" by simp
  have "0 \<le> (TD - FD) div 7" using lo by simp
  moreover have "(TD - FD) div 7 \<le> 52" using hi by presburger
  ultimately show ?thesis by (simp add: isoWeek_def TD_def FD_def y_def)
qed

lemma sydney_monday:
  "localTime sydney2024 1719756000000 = MakeDate (MakeDay 2024 6 1) 0
   \<and> getDay sydney2024 1719756000000 = 1"
  by code_simp

lemma sydney_thursdays:
  "targetThursday sydney2024 1719756000000 = 1720015200000
   \<and> yearFirstThursday sydney2024 1719756000000 = 1704286800000
   \<and> localTime sydney2024 1720015200000 = MakeDate (MakeDay 2024 6 4) 0
   \<and> localTime sydney2024 1704286800000 = MakeDate (MakeDay 2024 0 4) 0"
  by code_simp

lemma sydney_week:
  "getWeekNumber sydney2024 1719756000000 = 28
   \<and> isoWeek (Day (localTime sydney2024 1719756000000)) = 27"
  by code_simp

lemma sydney_noon:
  "localTime sydney2024 1723687200000 = MakeDate (MakeDay 2024 7 15) 43200000
   \<and> getWeekNumber sydney2024 1723687200000 = 34
   \<and> isoWeek (Day (localTime sydney2024 1723687200000)) = 33"
  by code_simp

lemma copenhagen_week:
  "localTime copenhagen2024 1719784800000 = MakeDate (MakeDay 2024 6 1) 0
   \<and> targetThursday copenhagen2024 1719784800000 = 1720044000000
   \<and> yearFirstThursday copenhagen2024 1719784800000 = 1704322800000
   \<and> getWeekNumber copenhagen2024 1719784800000 = 27
   \<and> isoWeek (Day (localTime copenhagen2024 1719784800000)) = 27"
  by code_simp

text \<open>
  Claim C4. Read on calendar days, the week number of the claim is the ISO-8601 week,
  which \<open>isoWeek\<close> is: 1 + floor((Thursday of the day's week - first Thursday of that
  Thursday's year) / 7 days), where weeks run from Monday, a week belongs to the year its
  Thursday lies in, week 1 holds the first Thursday of the year, and the number is
  between 1 and 53. In a time zone with a fixed offset \<open>getWeekNumber\<close> returns exactly
  the ISO week of the local day, for every date whose Thursdays stay in the range of a
  \<open>Date\<close>; it returns 1 for 2024-01-01 and for 2024-12-30, at midnight in UTC and in
  Copenhagen.

  The code does not compute on calendar days: it subtracts the time values of the two
  Thursdays, both at the date's local time of day, and rounds the quotient up. Where the
  clock changes between the two Thursdays the difference is not a whole number of weeks.
  In Copenhagen it falls short by an hour (2024-07-01: 26 weeks less one hour), and
  rounding up still gives the ISO week 27. In Sydney, where January has summer time, it
  exceeds by an hour: for Monday 2024-07-01 at 00:00 local time (time value
  1719756000000) the Thursday of the week is 2024-07-04 00:00 (1720015200000), the first
  Thursday of the year is 2024-01-04 00:00 in summer time (1704286800000), 26 weeks and
  one hour apart, and \<open>getWeekNumber\<close> returns 28 where the ISO week is 27. The same
  happens at noon on 2024-08-15 (34 where the ISO week is 33).
\<close>

theorem C4_week_number:
  "(datesInRange (fixedZone c) date \<longrightarrow>
      getWeekNumber (fixedZone c) date = isoWeek (Day (date + c)))
   \<and> isoWeek d = 1 + (thursdayOf d - firstThursdayOfYear (isoYear d)) div 7
   \<and> 1 \<le> isoWeek d \<and> isoWeek d \<le> 53
   \<and> mondayOf d \<le> d \<and> d < mondayOf d + 7 \<and> (mondayOf d + 4) mod 7 = 1
   \<and> thursdayOf d = mondayOf d + 3
   \<and> DayFromYear (isoYear d) \<le> thursdayOf d \<and> thursdayOf d < DayFromYear (isoYear d + 1)
   \<and> DayFromYear y \<le> firstThursdayOfYear y \<and> firstThursdayOfYear y < DayFromYear y + 7
   \<and> (firstThursdayOfYear y + 4) mod 7 = 4
   \<and> getWeekNumber z date'
       = 1 + ceilDiv (targetThursday z date' - yearFirstThursday z date') 604800000
   \<and> getWeekNumber (fixedZone 0) (MakeDate (MakeDay 2024 0 1) 0) = 1
   \<and> getWeekNumber (fixedZone 0) (MakeDate (MakeDay 2024 11 30) 0) = 1
   \<and> getWeekNumber copenhagen2024 (MakeDate (MakeDay 2024 0 1) 0 - 3600000) = 1
   \<and> getWeekNumber copenhagen2024 (MakeDate (MakeDay 2024 11 30) 0 - 3600000) = 1
   \<and> targetThursday copenhagen2024 1719784800000
         - yearFirstThursday copenhagen2024 1719784800000
       = 26 * 604800000 - 3600000
   \<and> getWeekNumber copenhagen2024 1719784800000 = 27
   \<and> isoWeek (Day (localTime copenhagen2024 1719784800000)) = 27
   \<and> localTime sydney2024 1719756000000 = MakeDate (MakeDay 2024 6 1) 0
   \<and> targetThursday sydney2024 1719756000000 = 1720015200000
   \<and> yearFirstThursday sydney2024 1719756000000 = 1704286800000
   \<and> targetThursday sydney2024 1719756000000 - yearFirstThursday sydney2024 1719756000000
       = 26 * 604800000 + 3600000
   \<and> getWeekNumber sydney2024 1719756000000 = 28
   \<and> isoWeek (Day (localTime sydney2024 1719756000000)) = 27
   \<and> getWeekNumber sydney2024 1723687200000 = 34
   \<and> isoWeek (Day (localTime sydney2024 1723687200000)) = 33"
proof -
  have c1: "datesInRange (fixedZone c) date \<longrightarrow>
      getWeekNumber (fixedZone c) date = isoWeek (Day (date + c))"
    by (rule impI) (rule getWeekNumber_fixed)
  have c2: "isoWeek d = 1 + (thursdayOf d - firstThursdayOfYear (isoYear d)) div 7"
    by (simp add: isoWeek_def)
  have c3: "thursdayOf d = mondayOf d + 3" by (simp add: thursdayOf_def)
  have c4: "(firstThursdayOfYear y + 4) mod 7 = 4"
    using firstThursdayOfYear_spec [of y] by presburger
  have e1: "getWeekNumber (fixedZone 0) (MakeDate (MakeDay 2024 0 1) 0) = 1" by code_simp
  have e2: "getWeekNumber (fixedZone 0) (MakeDate (MakeDay 2024 11 30) 0) = 1" by code_simp
  have e3: "getWeekNumber copenhagen2024 (MakeDate (MakeDay 2024 0 1) 0 - 3600000) = 1"
    by code_simp
  have e4: "getWeekNumber copenhagen2024 (MakeDate (MakeDay 2024 11 30) 0 - 3600000) = 1"
    by code_simp
  have e5: "targetThursday copenhagen2024 1719784800000
         - yearFirstThursday copenhagen2024 1719784800000
       = 26 * 604800000 - 3600000"
    using copenhagen_week by simp
  have e6: "targetThursday sydney2024 1719756000000 - yearFirstThursday sydney2024 1719756000000
       = 26 * 604800000 + 3600000"
    using sydney_thursdays by simp
  show ?thesis
    by (intro conjI)
      (fact c1 c2 c3 c4 e1 e2 e3 e4 e5 e6
         isoWeek_range [of d, THEN conjunct1] isoWeek_range [of d, THEN conjunct2]
         mondayOf_week [of d, THEN conjunct1] mondayOf_week [of d, THEN conjunct2, THEN conjunct1]
         mondayOf_week [of d, THEN conjunct2, THEN conjunct2]
         isoYear_spec [of d, THEN conjunct1] isoYear_spec [of d, THEN conjunct2]
         firstThursdayOfYear_spec [of y, THEN conjunct1]
         firstThursdayOfYear_spec [of y, THEN conjunct2, THEN conjunct1]
         getWeekNumber_dates
         copenhagen_week [THEN conjunct2, THEN conjunct2, THEN conjunct2, THEN conjunct1]
         copenhagen_week [THEN conjunct2, THEN conjunct2, THEN conjunct2, THEN conjunct2]
         sydney_monday [THEN conjunct1]
         sydney_thursdays [THEN conjunct1] sydney_thursdays [THEN conjunct2, THEN conjunct1]
         sydney_week [THEN conjunct1] sydney_week [THEN conjunct2]
         sydney_noon [THEN conjunct2, THEN conjunct1] sydney_noon [THEN conjunct2, THEN conjunct2])+
qed

theorem C4_week_number_witness:
  "datesInRange (fixedZone 19800000) 1719859500000
   \<and> getWeekNumber (fixedZone 19800000) 1719859500000 = 27"
proof -
  note T = C4_week_number [where c = 19800000 and date = 1719859500000]
  have r: "datesInRange (fixedZone 19800000) 1719859500000" by code_simp
  have v: "isoWeek (Day (1719859500000 + 19800000)) = 27" by code_simp
  have A: "getWeekNumber (fixedZone 19800000) 1719859500000
      = isoWeek (Day (1719859500000 + 19800000))"
    by (rule T [THEN conjunct1, THEN mp, OF r])
  from A v have "getWeekNumber (fixedZone 19800000) 1719859500000 = 27" by (simp only:)
  with r show ?thesis by (simp only: simp_thms)
qed

end
